theory Spec2Isabelle
  imports Main "HOL-Library.AList" "HOL-Library.Sublist"
begin

section \<open>The import dialog of \<^verbatim>\<open>lutris/gui/dialogs/game_import.py\<close>\<close>

text \<open>
  The dialog receives a list of file paths. A worker (\<open>search_checksums\<close>) resolves every
  path to a list of rom sets; the GUI thread (\<open>search_result_finished\<close>) then launches an
  installed game or imports the rom sets (\<open>import_rom\<close>, \<open>display_game_info\<close>,
  \<open>add_game\<close>). Exceptions are values of type \<open>error\<close>; every effect on the outside
  (labels, log, configuration files, database, signals) is appended to the event log of the
  state; the installer dictionaries live in an explicit heap, since \<open>add_game\<close> copies a
  shared template and then writes into the copy.
\<close>

subsection \<open>Data\<close>

type_synonym path = string
type_synonym game_id = nat
type_synonym addr = nat

text \<open>
  Python exceptions below \<open>Exception\<close>; \<open>str_error\<close> is \<open>str(ex)\<close>. The text of a
  \<open>KeyError\<close> is the \<open>repr\<close> of its key: in single quotes, or in double quotes when the key
  holds a single quote and no double quote; a backslash, the quote in use, newline,
  carriage return and tab are escaped with a backslash, the other control characters of
  ASCII are written \<open>\xhh\<close>, and every other character stands for itself. \<open>quoted\<close> is
  the \<open>'%s'\<close> of a format string.
\<close>

datatype error = RuntimeError string | KeyError string | Exception string

definition quoted :: "string \<Rightarrow> string" where
  "quoted s = CHR 0x27 # s @ [CHR 0x27]"

definition hex_digit :: "nat \<Rightarrow> char" where
  "hex_digit n = (if n < 10 then char_of (48 + n) else char_of (87 + n))"

definition repr_char :: "char \<Rightarrow> char \<Rightarrow> string" where
  "repr_char q c =
     (if c = CHR 0x5C then [CHR 0x5C, CHR 0x5C]
      else if c = q then [CHR 0x5C, q]
      else if c = CHR 0x0A then [CHR 0x5C, CHR ''n'']
      else if c = CHR 0x0D then [CHR 0x5C, CHR ''r'']
      else if c = CHR 0x09 then [CHR 0x5C, CHR ''t'']
      else if (of_char c :: nat) < 32 \<or> (of_char c :: nat) = 127
      then [CHR 0x5C, CHR ''x'', hex_digit ((of_char c :: nat) div 16),
            hex_digit ((of_char c :: nat) mod 16)]
      else [c])"

definition repr :: "string \<Rightarrow> string" where
  "repr k =
     (let q = (if CHR 0x27 \<in> set k \<and> CHR 0x22 \<notin> set k then CHR 0x22 else CHR 0x27)
      in q # concat (map (repr_char q) k) @ [q])"

fun str_error :: "error \<Rightarrow> string" where
  "str_error (RuntimeError m) = m"
| "str_error (KeyError k) = repr k"
| "str_error (Exception m) = m"

text \<open>
  \<open>Game(game_id)\<close>: the game object of a database row. Building it and emitting its
  signals are taken not to raise.
\<close>

datatype game = Game game_id

datatype rom = Rom (rom_md5: string)

text \<open>
  A rom set is a dictionary. Every rom set carries the key \<open>roms\<close>; the keys \<open>name\<close> and
  \<open>category\<close> (of which the code reads \<open>["category"]["name"]\<close>) come from the catalog,
  \<open>game\<close> marks an installed game and \<open>error\<close> a failed search. \<open>None\<close> is an absent key.
\<close>

record rom_set =
  rs_name :: "string option"
  rs_category :: "string option"
  rs_roms :: "rom list"
  rs_game :: "game option"
  rs_error :: "error option"

text \<open>
  An installer is a dictionary with a runner name and references to its sections, each a
  dictionary of strings: the section \<open>game\<close>, and any further ones.
\<close>

type_synonym sect = "(string \<times> string) list"

record installer =
  i_runner :: string
  i_game :: addr
  i_sections :: "(string \<times> addr) list"

text \<open>The contents of an installer as \<open>write_game_config\<close> reads them.\<close>

record config =
  c_runner :: string
  c_game :: sect
  c_sections :: "(string \<times> sect) list"

text \<open>The keyword arguments of \<open>lutris.database.games.add_game\<close>.\<close>

record game_row =
  g_name :: string
  g_runner :: string
  g_slug :: string
  g_directory :: string
  g_installed :: int
  g_installer_slug :: string
  g_configpath :: string

text \<open>
  The effects, in the order they happen. A label event carries the file of the label and
  the text it shows (the markup around the text and its escaping by \<open>gtk_safe\<close> are left
  out); \<open>Md5InZip\<close>, \<open>Md5Hash\<close>, \<open>SearchTosec\<close>, \<open>WriteGameConfig\<close>, \<open>AddGame\<close> and
  \<open>DownloadMedia\<close> are the calls of the functions of those names with their arguments;
  \<open>Emit\<close> is a signal of a game, \<open>Destroy\<close> the closing of the dialog.
\<close>

datatype event =
    ShowProgress path string
  | Md5InZip path
  | Md5Hash path
  | SearchTosec string
  | HideProgress path
  | ShowChecksum path string
  | ShowDescription path string
  | ShowCategory path string
  | ShowError path string
  | LogInfo string
  | LogException error
  | LogError error
  | WriteGameConfig string config
  | AddGame game_row
  | DownloadMedia string
  | Emit game string
  | Destroy

text \<open>
  The functions and tables the module imports. They are parameters: the checksum functions,
  the catalog search, the configuration writer and the database insert may raise.
  \<open>games_add_game\<close> is \<open>lutris.database.games.add_game\<close>; the id it returns may depend on
  the rows added before. \<open>DEFAULT_INSTALLERS\<close> maps a platform to the address of its
  template. \<open>game_name\<close> is the attribute \<open>name\<close> of \<open>Game(game_id)\<close>.
\<close>

record env =
  get_path_cache :: "(game_id \<times> path) list"
  game_name :: "game_id \<Rightarrow> string"
  get_md5_in_zip :: "path \<Rightarrow> error + string"
  get_md5_hash :: "path \<Rightarrow> error + string"
  search_tosec_by_md5 :: "string \<Rightarrow> error + rom_set list"
  guess_platform :: "rom_set \<Rightarrow> string option"
  clean_rom_name :: "string \<Rightarrow> string"
  slugify :: "string \<Rightarrow> string"
  DEFAULT_INSTALLERS :: "string \<Rightarrow> addr option"
  write_game_config :: "string \<Rightarrow> config \<Rightarrow> error + string"
  games_add_game :: "(game_id \<times> game_row) list \<Rightarrow> game_row \<Rightarrow> error + game_id"

text \<open>
  The state: the attributes of the dialog (\<open>files\<close>, \<open>platform\<close>, the check button), the heap
  of installer dictionaries and of their sections (an address is an index, allocation
  appends), the rows this run has added to the database, and the event log.
\<close>

record state =
  files :: "path list"
  platform :: "string option"
  auto_launch_button :: bool
  installers :: "installer list"
  sections :: "sect list"
  games :: "(game_id \<times> game_row) list"
  events :: "event list"

definition add_event :: "event \<Rightarrow> state \<Rightarrow> state" where
  "add_event e s = s\<lparr>events := events s @ [e]\<rparr>"

subsection \<open>\<open>__init__\<close>\<close>

text \<open>
  The constructor stores the files and creates the check button, active iff there is
  exactly one file. (The labels it creates are addressed by file path in the events.)
\<close>

definition init :: "path list \<Rightarrow> state \<Rightarrow> state" where
  "init fs s = s\<lparr>files := fs, platform := None, auto_launch_button := (length fs = 1)\<rparr>"

definition game_launch :: "game \<Rightarrow> state \<Rightarrow> state" where
  "game_launch g s = add_event Destroy (add_event (Emit g ''game-launch'') s)"

subsection \<open>\<open>search_checksums\<close>\<close>

definition show_progress :: "path \<Rightarrow> string \<Rightarrow> state \<Rightarrow> state" where
  "show_progress filepath message s = add_event (ShowProgress filepath message) s"

text \<open>\<open>str.lower\<close> on the ASCII letters, and \<open>str.endswith\<close>.\<close>

definition lower_char :: "char \<Rightarrow> char" where
  "lower_char c =
     (let n = (of_char c :: nat) in if 65 \<le> n \<and> n \<le> 90 then char_of (n + 32) else c)"

definition lower :: "string \<Rightarrow> string" where
  "lower s = map lower_char s"

definition endswith :: "string \<Rightarrow> string \<Rightarrow> bool" where
  "endswith s suf =
     (length suf \<le> length s \<and> drop (length s - length suf) s = suf)"

definition game_set :: "env \<Rightarrow> game_id \<Rightarrow> rom_set" where
  "game_set e game_id =
     \<lparr>rs_name = Some (game_name e game_id), rs_category = None, rs_roms = [],
      rs_game = Some (Game game_id), rs_error = None\<rparr>"

definition error_set :: "error \<Rightarrow> rom_set" where
  "error_set err =
     \<lparr>rs_name = None, rs_category = None, rs_roms = [], rs_game = None, rs_error = Some err\<rparr>"

text \<open>
  The loop over the path cache. It has no \<open>break\<close>: every game id whose path is the file
  assigns \<open>result\<close>, the last one stays. The keys of a dictionary are distinct, so
  \<open>game_path_cache[game_id]\<close> is the path paired with \<open>game_id\<close>.
\<close>

fun installed_loop :: "env \<Rightarrow> path \<Rightarrow> (game_id \<times> path) list \<Rightarrow> rom_set list \<Rightarrow> rom_set list" where
  "installed_loop e filename [] result = result"
| "installed_loop e filename ((game_id, p) # cache) result =
     (if p = filename then installed_loop e filename cache [game_set e game_id]
      else installed_loop e filename cache result)"

text \<open>
  The body of the loop over the files: \<open>try\<close>, \<open>except Exception\<close>, \<open>finally\<close>. In the
  first branch \<open>result\<close> starts unassigned (\<open>[]\<close> here); the condition of the branch
  makes the loop assign it.
\<close>

definition search_file :: "env \<Rightarrow> (game_id \<times> path) list \<Rightarrow> path \<Rightarrow> state \<Rightarrow> rom_set list \<times> state" where
  "search_file e game_path_cache filename s0 =
     (let s1 = show_progress filename ''Looking for installed game...'' s0;
          (result, s2) =
            (if filename \<in> set (map snd game_path_cache)
             then (installed_loop e filename game_path_cache [], s1)
             else
               (let s = show_progress filename ''Calculating checksum...'' s1;
                    (r, s) = (if endswith (lower filename) ''.zip''
                              then (get_md5_in_zip e filename, add_event (Md5InZip filename) s)
                              else (get_md5_hash e filename, add_event (Md5Hash filename) s))
                in case r of
                     Inl err \<Rightarrow> ([error_set err], s)
                   | Inr md5 \<Rightarrow>
                       (let s = show_progress filename ''Looking up checksum on Lutris.net...'' s;
                            s = add_event (SearchTosec md5) s
                        in case search_tosec_by_md5 e md5 of
                             Inl err \<Rightarrow> ([error_set err], s)
                           | Inr result \<Rightarrow>
                               if result = []
                               then ([error_set (RuntimeError ''This ROM could not be identified.'')], s)
                               else (result, s))))
      in (result, show_progress filename '''' s2))"

text \<open>\<open>results\<close> is an \<open>OrderedDict\<close>: assigning to a present key keeps the key's place.\<close>

fun search_loop :: "env \<Rightarrow> (game_id \<times> path) list \<Rightarrow> path list \<Rightarrow> (path \<times> rom_set list) list
    \<Rightarrow> state \<Rightarrow> (path \<times> rom_set list) list \<times> state" where
  "search_loop e cache [] results s = (results, s)"
| "search_loop e cache (filename # fs) results s =
     (let (result, s') = search_file e cache filename s
      in search_loop e cache fs (AList.update filename result results) s')"

definition search_checksums :: "env \<Rightarrow> state \<Rightarrow> (path \<times> rom_set list) list \<times> state" where
  "search_checksums e s = search_loop e (get_path_cache e) (files s) [] s"

subsection \<open>\<open>display_game_info\<close>\<close>

text \<open>
  The labels are set one after the other; a missing key raises \<open>KeyError\<close> where it is
  read. \<open>self.platform\<close> is assigned before it is tested, and \<open>not self.platform\<close> holds
  for \<open>None\<close> and for the empty string.
\<close>

definition display_game_info :: "env \<Rightarrow> path \<Rightarrow> rom_set \<Rightarrow> string \<Rightarrow> state \<Rightarrow> (error + unit) \<times> state" where
  "display_game_info e filename rom_set checksum s0 =
     (let s1 = add_event (ShowChecksum filename checksum) s0
      in case rs_name rom_set of
           None \<Rightarrow> (Inl (KeyError ''name''), s1)
         | Some n \<Rightarrow>
             (let s2 = add_event (ShowDescription filename n) s1
              in case rs_category rom_set of
                   None \<Rightarrow> (Inl (KeyError ''category''), s2)
                 | Some category \<Rightarrow>
                     (let s3 = add_event (ShowCategory filename category) s2;
                          s4 = s3\<lparr>platform := guess_platform e rom_set\<rparr>
                      in if platform s4 = None \<or> platform s4 = Some []
                         then (Inl (RuntimeError
                                 (''The platform '' @ quoted category @ '' is unknown to Lutris.'')), s4)
                         else (Inr (), s4))))"

subsection \<open>\<open>add_game\<close>\<close>

text \<open>
  \<open>deepcopy\<close> of an installer: every section it refers to is copied to a fresh address,
  once (the memo maps the address of an original to the address of its copy), and a new
  installer dictionary refers to the copies.
\<close>

definition copy_section :: "addr \<Rightarrow> (addr \<times> addr) list \<Rightarrow> sect list
    \<Rightarrow> addr \<times> (addr \<times> addr) list \<times> sect list" where
  "copy_section a memo secs =
     (case map_of memo a of
        Some a' \<Rightarrow> (a', memo, secs)
      | None \<Rightarrow> (length secs, (a, length secs) # memo, secs @ [secs ! a]))"

fun copy_sections :: "(string \<times> addr) list \<Rightarrow> (addr \<times> addr) list \<Rightarrow> sect list
    \<Rightarrow> (string \<times> addr) list \<times> (addr \<times> addr) list \<times> sect list" where
  "copy_sections [] memo secs = ([], memo, secs)"
| "copy_sections ((key, a) # kas) memo secs =
     (let (a', memo', secs') = copy_section a memo secs;
          (kas', memo'', secs'') = copy_sections kas memo' secs'
      in ((key, a') # kas', memo'', secs''))"

definition deepcopy :: "addr \<Rightarrow> state \<Rightarrow> addr \<times> state" where
  "deepcopy a s =
     (let inst = installers s ! a;
          (g, memo, secs) = copy_section (i_game inst) [] (sections s);
          (kas, memo', secs') = copy_sections (i_sections inst) memo secs
      in (length (installers s),
          s\<lparr>installers := installers s @ [\<lparr>i_runner = i_runner inst, i_game = g, i_sections = kas\<rparr>],
            sections := secs'\<rparr>))"

text \<open>
  The loop over \<open>installer["game"].items()\<close>: the section at address \<open>g\<close> is written in
  place, under every key whose value is \<open>"rom"\<close>.
\<close>

fun fill_rom :: "addr \<Rightarrow> path \<Rightarrow> (string \<times> string) list \<Rightarrow> sect list \<Rightarrow> sect list" where
  "fill_rom g filepath [] secs = secs"
| "fill_rom g filepath ((key, v) # items) secs =
     fill_rom g filepath items
       (if v = ''rom'' then secs[g := AList.update key filepath (secs ! g)] else secs)"

definition read_installer :: "state \<Rightarrow> addr \<Rightarrow> config" where
  "read_installer s a =
     (let inst = installers s ! a
      in \<lparr>c_runner = i_runner inst, c_game = sections s ! i_game inst,
          c_sections = map (\<lambda>(key, r). (key, sections s ! r)) (i_sections inst)\<rparr>)"

text \<open>
  Modelled from the spec: \<open>download_lutris_media\<close> (\<open>lutris.services.lutris\<close>) is not among
  the sources. The spec gives it as \<open>downloadMedia(slug)\<close>, fire-and-forget: the call starts
  a best-effort download in the background and returns; what becomes of the download never
  reaches the caller.
\<close>

definition download_lutris_media :: "string \<Rightarrow> state \<Rightarrow> state" where
  "download_lutris_media slug s = add_event (DownloadMedia slug) s"

text \<open>\<open>'%s' % self.platform\<close>.\<close>

definition str_platform :: "string option \<Rightarrow> string" where
  "str_platform p = (case p of None \<Rightarrow> ''None'' | Some x \<Rightarrow> x)"

definition add_game :: "env \<Rightarrow> rom_set \<Rightarrow> path \<Rightarrow> state \<Rightarrow> (error + game_id) \<times> state" where
  "add_game e rom_set filepath s0 =
     (case rs_name rom_set of
        None \<Rightarrow> (Inl (KeyError ''name''), s0)
      | Some n \<Rightarrow>
          (let name = clean_rom_name e n;
               s1 = add_event (LogInfo (''Installing '' @ name)) s0
           in case (case platform s1 of None \<Rightarrow> None | Some p \<Rightarrow> DEFAULT_INSTALLERS e p) of
                None \<Rightarrow>
                  (Inl (RuntimeError (''Lutris does not have a default installer for the ''
                     @ quoted (str_platform (platform s1)) @ '' platform.'')), s1)
              | Some template \<Rightarrow>
                  (let (installer, s2) = deepcopy template s1;
                       g = i_game (installers s2 ! installer);
                       s3 = s2\<lparr>sections := fill_rom g filepath (sections s2 ! g) (sections s2)\<rparr>;
                       slug = slugify e name;
                       conf = read_installer s3 installer;
                       s4 = add_event (WriteGameConfig slug conf) s3
                   in case write_game_config e slug conf of
                        Inl err \<Rightarrow> (Inl err, s4)
                      | Inr configpath \<Rightarrow>
                          (let row = \<lparr>g_name = name, g_runner = c_runner conf, g_slug = slug,
                                      g_directory = [], g_installed = 1,
                                      g_installer_slug = slug @ ''-'' @ c_runner conf,
                                      g_configpath = configpath\<rparr>;
                               s5 = add_event (AddGame row) s4
                           in case games_add_game e (games s5) row of
                                Inl err \<Rightarrow> (Inl err, s5)
                              | Inr game_id \<Rightarrow>
                                  (Inr game_id,
                                   download_lutris_media slug
                                     (s5\<lparr>games := games s5 @ [(game_id, row)]\<rparr>))))))"

subsection \<open>\<open>import_rom\<close>\<close>

text \<open>
  The body of the \<open>try\<close>. The loop over the roms returns in its first round, so only the
  first rom is looked at; with no rom the loop ends and nothing is raised.
\<close>

definition try_import :: "env \<Rightarrow> rom_set \<Rightarrow> path \<Rightarrow> bool \<Rightarrow> state \<Rightarrow> (error + bool) \<times> state" where
  "try_import e rom_set filename launch_game s0 =
     (let s1 = add_event (HideProgress filename) s0
      in case rs_error rom_set of
           Some err \<Rightarrow> (Inl err, s1)
         | None \<Rightarrow>
             (case rs_roms rom_set of
                [] \<Rightarrow> (Inr False, s1)
              | rom # _ \<Rightarrow>
                  (case display_game_info e filename rom_set (rom_md5 rom) s1 of
                     (Inl err, s2) \<Rightarrow> (Inl err, s2)
                   | (Inr _, s2) \<Rightarrow>
                       (case add_game e rom_set filename s2 of
                          (Inl err, s3) \<Rightarrow> (Inl err, s3)
                        | (Inr game_id, s3) \<Rightarrow>
                            (let game = Game game_id;
                                 s4 = add_event (Emit game ''game-installed'') s3;
                                 s5 = add_event (Emit game ''game-updated'') s4;
                                 s6 = (if launch_game then game_launch game s5 else s5)
                             in (Inr True, s6))))))"

definition import_rom :: "env \<Rightarrow> rom_set \<Rightarrow> path \<Rightarrow> bool \<Rightarrow> state \<Rightarrow> bool \<times> state" where
  "import_rom e rom_set filename launch_game s =
     (case try_import e rom_set filename launch_game s of
        (Inr b, s') \<Rightarrow> (b, s')
      | (Inl ex, s') \<Rightarrow>
          (False, add_event (ShowError filename (str_error ex)) (add_event (LogException ex) s')))"

subsection \<open>\<open>search_result_finished\<close>\<close>

text \<open>The first pass: the game of the first rom set that has one, in the order of the results.\<close>

fun installed_in_result :: "rom_set list \<Rightarrow> game option" where
  "installed_in_result [] = None"
| "installed_in_result (rom_set # result) =
     (case rs_game rom_set of Some g \<Rightarrow> Some g | None \<Rightarrow> installed_in_result result)"

fun installed_in_results :: "(path \<times> rom_set list) list \<Rightarrow> game option" where
  "installed_in_results [] = None"
| "installed_in_results ((filename, result) # results) =
     (case installed_in_result result of
        Some g \<Rightarrow> Some g
      | None \<Rightarrow> installed_in_results results)"

text \<open>
  The inner loop over the rom sets of one file. The flag tells whether the function
  returned (\<open>True\<close>: an import succeeded and \<open>launch_game\<close> is set) or the loop ended or was
  left by \<open>break\<close> (\<open>False\<close>).
\<close>

fun import_result :: "env \<Rightarrow> path \<Rightarrow> bool \<Rightarrow> rom_set list \<Rightarrow> state \<Rightarrow> bool \<times> state" where
  "import_result e filename launch_game [] s = (False, s)"
| "import_result e filename launch_game (rom_set # result) s =
     (let (ok, s') = import_rom e rom_set filename launch_game s
      in if ok then (launch_game, s')
         else import_result e filename launch_game result s')"

fun import_results :: "env \<Rightarrow> bool \<Rightarrow> (path \<times> rom_set list) list \<Rightarrow> state \<Rightarrow> bool \<times> state" where
  "import_results e launch_game [] s = (False, s)"
| "import_results e launch_game ((filename, result) # results) s =
     (let (returned, s') = import_result e filename launch_game result s
      in if returned then (True, s')
         else import_results e launch_game results s')"

definition search_result_finished :: "env \<Rightarrow> (path \<times> rom_set list) list \<Rightarrow> error option \<Rightarrow> state \<Rightarrow> state" where
  "search_result_finished e results err s =
     (case err of
        Some x \<Rightarrow> add_event (LogError x) s
      | None \<Rightarrow>
          (let launch_game = auto_launch_button s
           in case (if launch_game then installed_in_results results else None) of
                Some g \<Rightarrow> game_launch g s
              | None \<Rightarrow> snd (import_results e launch_game results s)))"

text \<open>
  The whole dialog when the user leaves the check button alone: \<open>__init__\<close>, the worker,
  and the callback with the worker's results.
\<close>

definition import_dialog :: "env \<Rightarrow> path list \<Rightarrow> state \<Rightarrow> state" where
  "import_dialog e fs s =
     (let (results, s') = search_checksums e (init fs s)
      in search_result_finished e results None s')"

subsection \<open>Observations on a run\<close>

text \<open>
  What the properties below speak about: the events that launch a game, the checksum
  computations for a file, the failure messages shown for a file; the checksum call and
  the installer copy that \<open>search_file\<close> and \<open>add_game\<close> make; and the two outcomes a file
  can have between a state and a later one: a new database row, a new failure message.
\<close>

definition launch_event :: "event \<Rightarrow> bool" where
  "launch_event ev = (case ev of Emit g l \<Rightarrow> l = ''game-launch'' | Destroy \<Rightarrow> True | _ \<Rightarrow> False)"

definition checksum_event :: "path \<Rightarrow> event \<Rightarrow> bool" where
  "checksum_event f ev = (ev = Md5InZip f \<or> ev = Md5Hash f)"

definition error_event :: "path \<Rightarrow> event \<Rightarrow> bool" where
  "error_event f ev = (case ev of ShowError p m \<Rightarrow> p = f | _ \<Rightarrow> False)"

definition md5_event :: "path \<Rightarrow> event" where
  "md5_event f = (if endswith (lower f) ''.zip'' then Md5InZip f else Md5Hash f)"

definition md5_call :: "env \<Rightarrow> path \<Rightarrow> error + string" where
  "md5_call e f = (if endswith (lower f) ''.zip'' then get_md5_in_zip e f else get_md5_hash e f)"

definition copy_installer :: "addr \<Rightarrow> path \<Rightarrow> state \<Rightarrow> addr \<times> state" where
  "copy_installer template filepath s =
     (let (installer, s2) = deepcopy template s;
          g = i_game (installers s2 ! installer)
      in (installer, s2\<lparr>sections := fill_rom g filepath (sections s2 ! g) (sections s2)\<rparr>))"

definition created_record :: "state \<Rightarrow> state \<Rightarrow> bool" where
  "created_record s s' = (length (games s) < length (games s'))"

definition recorded_failure :: "path \<Rightarrow> state \<Rightarrow> state \<Rightarrow> bool" where
  "recorded_failure f s s' =
     (length (filter (error_event f) (events s)) < length (filter (error_event f) (events s')))"

subsection \<open>A concrete run\<close>

text \<open>
  One installed game, a catalog that knows two cartridges (one of a platform Lutris
  knows), one installer template with a placeholder, a configuration writer and a database
  that accept everything. \<open>/roms/none.bin\<close> is unknown to the catalog, the lookup of
  \<open>/roms/down.bin\<close> fails, \<open>/roms/empty.bin\<close> is a rom set without roms, and
  \<open>/roms/two.bin\<close> has two rom sets, the first of an unknown platform;
  \<open>hollow_odd_set\<close> is a rom set of an unknown platform without roms.
\<close>

definition snes_set :: "string \<Rightarrow> rom_set" where
  "snes_set n =
     \<lparr>rs_name = Some n, rs_category = Some ''Nintendo SNES'', rs_roms = [Rom ''0f0f''],
      rs_game = None, rs_error = None\<rparr>"

definition odd_set :: rom_set where
  "odd_set =
     \<lparr>rs_name = Some ''Odd'', rs_category = Some ''Abacus'', rs_roms = [Rom ''0a0a''],
      rs_game = None, rs_error = None\<rparr>"

definition empty_set :: rom_set where
  "empty_set =
     \<lparr>rs_name = Some ''Hollow'', rs_category = Some ''Nintendo SNES'', rs_roms = [],
      rs_game = None, rs_error = None\<rparr>"

definition hollow_odd_set :: rom_set where
  "hollow_odd_set =
     \<lparr>rs_name = Some ''Odd'', rs_category = Some ''Abacus'', rs_roms = [],
      rs_game = None, rs_error = None\<rparr>"

definition env0 :: env where
  "env0 =
     \<lparr>get_path_cache = [(7, ''/roms/old.sfc'')],
      game_name = (\<lambda>_. ''Old Game''),
      get_md5_in_zip = (\<lambda>p. Inr (''z:'' @ p)),
      get_md5_hash = (\<lambda>p. Inr (''h:'' @ p)),
      search_tosec_by_md5 = (\<lambda>m.
         if m = ''h:/roms/a.sfc'' then Inr [snes_set ''Game A'']
         else if m = ''h:/roms/b.sfc'' then Inr [snes_set ''Game B'']
         else if m = ''h:/roms/c.sfc'' then Inr [snes_set ''Game C'']
         else if m = ''h:/roms/odd.bin'' then Inr [odd_set]
         else if m = ''h:/roms/two.bin'' then Inr [odd_set, snes_set ''Game T'']
         else if m = ''h:/roms/empty.bin'' then Inr [empty_set]
         else if m = ''h:/roms/down.bin'' then Inl (Exception ''connection refused'')
         else Inr []),
      guess_platform = (\<lambda>rs. if rs_category rs = Some ''Nintendo SNES'' then Some ''snes'' else None),
      clean_rom_name = (\<lambda>n. n),
      slugify = lower,
      DEFAULT_INSTALLERS = (\<lambda>p. if p = ''snes'' then Some 0 else None),
      write_game_config = (\<lambda>slug conf. Inr (slug @ ''.yml'')),
      games_add_game = (\<lambda>rows row. Inr (Suc (length rows)))\<rparr>"

definition state0 :: state where
  "state0 =
     \<lparr>files = [], platform = None, auto_launch_button = False,
      installers = [\<lparr>i_runner = ''libretro'', i_game = 0, i_sections = []\<rparr>],
      sections = [[(''core'', ''snes9x''), (''main_file'', ''rom'')]],
      games = [], events = []\<rparr>"

section \<open>Properties\<close>

subsection \<open>Events and fields\<close>

lemma add_event_fields [simp]:
  "events (add_event ev s) = events s @ [ev]"
  "games (add_event ev s) = games s"
  "installers (add_event ev s) = installers s"
  "sections (add_event ev s) = sections s"
  "platform (add_event ev s) = platform s"
  "auto_launch_button (add_event ev s) = auto_launch_button s"
  "files (add_event ev s) = files s"
  by (simp_all add: add_event_def)

lemma show_progress_fields [simp]:
  "events (show_progress f m s) = events s @ [ShowProgress f m]"
  "games (show_progress f m s) = games s"
  "installers (show_progress f m s) = installers s"
  "sections (show_progress f m s) = sections s"
  "platform (show_progress f m s) = platform s"
  "auto_launch_button (show_progress f m s) = auto_launch_button s"
  "files (show_progress f m s) = files s"
  by (simp_all add: show_progress_def)

lemma game_launch_fields [simp]:
  "events (game_launch g s) = events s @ [Emit g ''game-launch'', Destroy]"
  "games (game_launch g s) = games s"
  "installers (game_launch g s) = installers s"
  "sections (game_launch g s) = sections s"
  "platform (game_launch g s) = platform s"
  "auto_launch_button (game_launch g s) = auto_launch_button s"
  by (simp_all add: game_launch_def)

lemma launch_event_simps [simp]:
  "launch_event (ShowProgress f m) = False" "launch_event (Md5InZip f) = False"
  "launch_event (Md5Hash f) = False" "launch_event (SearchTosec m) = False"
  "launch_event (HideProgress f) = False" "launch_event (ShowChecksum f m) = False"
  "launch_event (ShowDescription f m) = False" "launch_event (ShowCategory f m) = False"
  "launch_event (ShowError f m) = False" "launch_event (LogInfo m) = False"
  "launch_event (LogException x) = False" "launch_event (LogError x) = False"
  "launch_event (WriteGameConfig m cf) = False" "launch_event (AddGame row) = False"
  "launch_event (DownloadMedia m) = False" "launch_event Destroy = True"
  "launch_event (Emit g l) = (l = ''game-launch'')"
  by (simp_all add: launch_event_def)

lemma error_event_simps [simp]:
  "error_event p (ShowProgress f m) = False" "error_event p (Md5InZip f) = False"
  "error_event p (Md5Hash f) = False" "error_event p (SearchTosec m) = False"
  "error_event p (HideProgress f) = False" "error_event p (ShowChecksum f m) = False"
  "error_event p (ShowDescription f m) = False" "error_event p (ShowCategory f m) = False"
  "error_event p (ShowError f m) = (f = p)" "error_event p (LogInfo m) = False"
  "error_event p (LogException x) = False" "error_event p (LogError x) = False"
  "error_event p (WriteGameConfig m cf) = False" "error_event p (AddGame row) = False"
  "error_event p (DownloadMedia m) = False" "error_event p Destroy = False"
  "error_event p (Emit g l) = False"
  by (simp_all add: error_event_def)

lemma checksum_event_simps [simp]:
  "checksum_event p (ShowProgress f m) = False" "checksum_event p (SearchTosec m) = False"
  "checksum_event p (md5_event f) = (f = p)"
  by (auto simp add: checksum_event_def md5_event_def)

subsection \<open>The worker\<close>

text \<open>The five ways through the body of the loop of \<open>search_checksums\<close>.\<close>

lemma search_file_cases [case_names cached md5_failed lookup_failed not_identified found]:
  obtains
    (cached) "f \<in> snd ` set c"
      "search_file e c f s =
         (installed_loop e f c [],
          s\<lparr>events := events s @ [ShowProgress f ''Looking for installed game...'', ShowProgress f []]\<rparr>)"
  | (md5_failed) err where "f \<notin> snd ` set c" "md5_call e f = Inl err"
      "search_file e c f s =
         ([error_set err],
          s\<lparr>events := events s @ [ShowProgress f ''Looking for installed game...'',
             ShowProgress f ''Calculating checksum...'', md5_event f, ShowProgress f []]\<rparr>)"
  | (lookup_failed) m err where "f \<notin> snd ` set c" "md5_call e f = Inr m"
      "search_tosec_by_md5 e m = Inl err"
      "search_file e c f s =
         ([error_set err],
          s\<lparr>events := events s @ [ShowProgress f ''Looking for installed game...'',
             ShowProgress f ''Calculating checksum...'', md5_event f,
             ShowProgress f ''Looking up checksum on Lutris.net...'', SearchTosec m,
             ShowProgress f []]\<rparr>)"
  | (not_identified) m where "f \<notin> snd ` set c" "md5_call e f = Inr m"
      "search_tosec_by_md5 e m = Inr []"
      "search_file e c f s =
         ([error_set (RuntimeError ''This ROM could not be identified.'')],
          s\<lparr>events := events s @ [ShowProgress f ''Looking for installed game...'',
             ShowProgress f ''Calculating checksum...'', md5_event f,
             ShowProgress f ''Looking up checksum on Lutris.net...'', SearchTosec m,
             ShowProgress f []]\<rparr>)"
  | (found) m result where "f \<notin> snd ` set c" "md5_call e f = Inr m"
      "search_tosec_by_md5 e m = Inr result" "result \<noteq> []"
      "search_file e c f s =
         (result,
          s\<lparr>events := events s @ [ShowProgress f ''Looking for installed game...'',
             ShowProgress f ''Calculating checksum...'', md5_event f,
             ShowProgress f ''Looking up checksum on Lutris.net...'', SearchTosec m,
             ShowProgress f []]\<rparr>)"
proof (cases "f \<in> snd ` set c")
  case True
  then show ?thesis
    using cached by (simp add: search_file_def show_progress_def add_event_def)
next
  case False
  have unfold: "search_file e c f s =
    (case md5_call e f of
       Inl err \<Rightarrow> ([error_set err],
          s\<lparr>events := events s @ [ShowProgress f ''Looking for installed game...'',
             ShowProgress f ''Calculating checksum...'', md5_event f, ShowProgress f []]\<rparr>)
     | Inr m \<Rightarrow>
         (case search_tosec_by_md5 e m of
            Inl err \<Rightarrow> [error_set err]
          | Inr result \<Rightarrow> if result = []
              then [error_set (RuntimeError ''This ROM could not be identified.'')] else result,
          s\<lparr>events := events s @ [ShowProgress f ''Looking for installed game...'',
             ShowProgress f ''Calculating checksum...'', md5_event f,
             ShowProgress f ''Looking up checksum on Lutris.net...'', SearchTosec m,
             ShowProgress f []]\<rparr>))"
  proof (cases "endswith (lower f) ''.zip''")
    case True
    show ?thesis
    proof (cases "get_md5_in_zip e f")
      case (Inl err)
      with True False show ?thesis
        by (simp add: search_file_def md5_call_def md5_event_def show_progress_def add_event_def)
    next
      case (Inr m)
      with True False show ?thesis
        by (cases "search_tosec_by_md5 e m")
           (simp_all add: search_file_def md5_call_def md5_event_def show_progress_def add_event_def)
    qed
  next
    case nz: False
    show ?thesis
    proof (cases "get_md5_hash e f")
      case (Inl err)
      with nz False show ?thesis
        by (simp add: search_file_def md5_call_def md5_event_def show_progress_def add_event_def)
    next
      case (Inr m)
      with nz False show ?thesis
        by (cases "search_tosec_by_md5 e m")
           (simp_all add: search_file_def md5_call_def md5_event_def show_progress_def add_event_def)
    qed
  qed
  show ?thesis
  proof (cases "md5_call e f")
    case (Inl err)
    with unfold False show ?thesis using md5_failed by simp
  next
    case m: (Inr m)
    show ?thesis
    proof (cases "search_tosec_by_md5 e m")
      case (Inl err)
      with unfold False m show ?thesis using lookup_failed by simp
    next
      case (Inr result)
      with unfold False m show ?thesis using not_identified found by (cases "result = []") simp_all
    qed
  qed
qed

lemma search_file_launch [simp]:
  "filter launch_event (events (snd (search_file e c f s))) = filter launch_event (events s)"
  by (cases rule: search_file_cases[of f c e s]) (simp_all add: md5_event_def)

lemma search_file_fields [simp]:
  "games (snd (search_file e c f s)) = games s"
  "installers (snd (search_file e c f s)) = installers s"
  "sections (snd (search_file e c f s)) = sections s"
  "platform (snd (search_file e c f s)) = platform s"
  "auto_launch_button (snd (search_file e c f s)) = auto_launch_button s"
  "files (snd (search_file e c f s)) = files s"
  by (cases rule: search_file_cases[of f c e s]; simp)+

lemma installed_loop_none:
  "f \<notin> snd ` set c \<Longrightarrow> installed_loop e f c r = r"
  by (induction c arbitrary: r) auto

lemma installed_loop_cached:
  "f \<in> snd ` set c \<Longrightarrow> \<exists>game_id. (game_id, f) \<in> set c \<and> installed_loop e f c r = [game_set e game_id]"
proof (induction c arbitrary: r)
  case Nil
  then show ?case by simp
next
  case (Cons x c)
  obtain game_id p where x: "x = (game_id, p)" by (cases x)
  show ?case
  proof (cases "f \<in> snd ` set c")
    case True
    from Cons.IH[OF True] x show ?thesis by (cases "p = f") fastforce+
  next
    case False
    with Cons.prems x have "p = f" by auto
    with False x show ?thesis by (auto simp: installed_loop_none)
  qed
qed

lemma search_file_checksum:
  "f \<in> snd ` set c \<Longrightarrow>
   filter (checksum_event f) (events (snd (search_file e c f' s))) = filter (checksum_event f) (events s)"
  by (cases rule: search_file_cases[of f' c e s]) auto

lemma fst_search_file:
  "fst (search_file e c f s) = fst (search_file e c f s')"
  by (cases rule: search_file_cases[of f c e s]; cases rule: search_file_cases[of f c e s']) simp_all

lemma search_loop_fields [simp]:
  "games (snd (search_loop e c fs rs s)) = games s"
  "installers (snd (search_loop e c fs rs s)) = installers s"
  "sections (snd (search_loop e c fs rs s)) = sections s"
  "platform (snd (search_loop e c fs rs s)) = platform s"
  "auto_launch_button (snd (search_loop e c fs rs s)) = auto_launch_button s"
  "files (snd (search_loop e c fs rs s)) = files s"
  by (induction fs arbitrary: rs s; simp add: split_beta)+

lemma search_loop_launch [simp]:
  "filter launch_event (events (snd (search_loop e c fs rs s))) = filter launch_event (events s)"
  by (induction fs arbitrary: rs s) (simp_all add: split_beta)

lemma search_loop_checksum:
  "f \<in> snd ` set c \<Longrightarrow>
   filter (checksum_event f) (events (snd (search_loop e c fs rs s))) = filter (checksum_event f) (events s)"
  by (induction fs arbitrary: rs s) (simp_all add: split_beta search_file_checksum)

lemma search_loop_other:
  "f \<notin> set fs \<Longrightarrow> map_of (fst (search_loop e c fs rs s)) f = map_of rs f"
  by (induction fs arbitrary: rs s) (simp_all add: split_beta update_conv')

lemma search_loop_result:
  "f \<in> set fs \<Longrightarrow> map_of (fst (search_loop e c fs rs s)) f = Some (fst (search_file e c f s0))"
proof (induction fs arbitrary: rs s)
  case Nil
  then show ?case by simp
next
  case (Cons f' fs)
  show ?case
  proof (cases "f \<in> set fs")
    case True
    with Cons.IH show ?thesis by (simp add: split_beta)
  next
    case False
    with Cons.prems have "f' = f" by simp
    with False show ?thesis
      using fst_search_file[of e c f s s0] by (simp add: split_beta search_loop_other update_conv')
  qed
qed

lemma import_rom_game_set:
  "import_rom e (game_set e game_id) f launch_game s = (False, add_event (HideProgress f) s)"
  by (simp add: import_rom_def try_import_def game_set_def)

subsection \<open>Files of installed games\<close>

text \<open>
  Claim C1. A file whose path is among the values of the path cache is resolved by the
  worker to one rom set: it carries the game of an id that the cache pairs with the path,
  the name of that game, no roms and no error, and the callback reads it as an installed
  game. The worker does nothing else for the file than show the two progress messages: no
  checksum is computed and the catalog is not asked. The results of the whole run hold
  that rom set for the file, the run computes no checksum for it, and importing that rom
  set only hides the progress label: no game is added.
\<close>

theorem installed_file_resolved:
  assumes "filename \<in> snd ` set (get_path_cache e)"
  shows "\<exists>game_id. (game_id, filename) \<in> set (get_path_cache e) \<and>
    search_file e (get_path_cache e) filename s =
      ([\<lparr>rs_name = Some (game_name e game_id), rs_category = None, rs_roms = [],
         rs_game = Some (Game game_id), rs_error = None\<rparr>],
       s\<lparr>events := events s @ [ShowProgress filename ''Looking for installed game...'',
                                ShowProgress filename []]\<rparr>) \<and>
    installed_in_result (fst (search_file e (get_path_cache e) filename s)) = Some (Game game_id) \<and>
    (filename \<in> set (files s) \<longrightarrow>
       map_of (fst (search_checksums e s)) filename =
         Some [\<lparr>rs_name = Some (game_name e game_id), rs_category = None, rs_roms = [],
                rs_game = Some (Game game_id), rs_error = None\<rparr>]) \<and>
    filter (checksum_event filename) (events (snd (search_checksums e s))) =
      filter (checksum_event filename) (events s) \<and>
    (\<forall>launch_game s'.
       import_rom e
         \<lparr>rs_name = Some (game_name e game_id), rs_category = None, rs_roms = [],
          rs_game = Some (Game game_id), rs_error = None\<rparr> filename launch_game s' =
       (False, add_event (HideProgress filename) s'))"
proof -
  from installed_loop_cached[OF assms, of e "[]"] obtain game_id where
    g: "(game_id, filename) \<in> set (get_path_cache e)"
       "installed_loop e filename (get_path_cache e) [] = [game_set e game_id]" by blast
  let ?r = "\<lparr>rs_name = Some (game_name e game_id), rs_category = None, rs_roms = [],
          rs_game = Some (Game game_id), rs_error = None\<rparr>"
  have gs: "game_set e game_id = ?r" by (simp add: game_set_def)
  have sf: "search_file e (get_path_cache e) filename t =
      ([?r],
       t\<lparr>events := events t @ [ShowProgress filename ''Looking for installed game...'',
                                ShowProgress filename []]\<rparr>)" for t
    using assms g(2) gs
    by (cases rule: search_file_cases[of filename "get_path_cache e" e t]) simp_all
  have ins: "installed_in_result (fst (search_file e (get_path_cache e) filename s)) =
      Some (Game game_id)"
    by (simp add: sf)
  have res: "filename \<in> set (files s) \<Longrightarrow>
       map_of (fst (search_checksums e s)) filename = Some [?r]"
    using search_loop_result[of filename "files s" e "get_path_cache e" "[]" s s] sf[of s]
    by (simp add: search_checksums_def)
  have chk: "filter (checksum_event filename) (events (snd (search_checksums e s))) =
      filter (checksum_event filename) (events s)"
    using assms by (simp add: search_checksums_def search_loop_checksum)
  have imp: "import_rom e ?r filename launch_game s' = (False, add_event (HideProgress filename) s')"
    for launch_game s'
    using import_rom_game_set[of e game_id filename launch_game s'] by (simp add: gs)
  from g(1) sf[of s] ins res chk imp show ?thesis by blast
qed

theorem installed_file_resolved_witness:
  "''/roms/old.sfc'' \<in> snd ` set (get_path_cache env0) \<and>
   search_file env0 (get_path_cache env0) ''/roms/old.sfc'' (init [''/roms/old.sfc'', ''/roms/a.sfc''] state0) =
     ([\<lparr>rs_name = Some ''Old Game'', rs_category = None, rs_roms = [],
        rs_game = Some (Game 7), rs_error = None\<rparr>],
      (init [''/roms/old.sfc'', ''/roms/a.sfc''] state0)\<lparr>events :=
         [ShowProgress ''/roms/old.sfc'' ''Looking for installed game...'',
          ShowProgress ''/roms/old.sfc'' []]\<rparr>) \<and>
   map_of (fst (search_checksums env0 (init [''/roms/old.sfc'', ''/roms/a.sfc''] state0))) ''/roms/old.sfc'' =
     Some [\<lparr>rs_name = Some ''Old Game'', rs_category = None, rs_roms = [],
            rs_game = Some (Game 7), rs_error = None\<rparr>]"
  using installed_file_resolved[of "''/roms/old.sfc''" env0 "init [''/roms/old.sfc'', ''/roms/a.sfc''] state0"]
  by (auto simp add: env0_def init_def state0_def)

subsection \<open>Copying a template\<close>

lemma copy_section_prefix:
  "copy_section a memo secs = (a', memo', secs') \<Longrightarrow> prefix secs secs'"
  by (auto simp: copy_section_def split: option.splits)

lemma copy_sections_prefix:
  "copy_sections kas memo secs = (kas', memo', secs') \<Longrightarrow> prefix secs secs'"
proof (induction kas arbitrary: memo secs kas' memo' secs')
  case Nil
  then show ?case by simp
next
  case (Cons x kas)
  obtain key a where x: "x = (key, a)" by (cases x)
  obtain a1 memo1 secs1 where c1: "copy_section a memo secs = (a1, memo1, secs1)"
    by (cases "copy_section a memo secs")
  obtain kas2 memo2 secs2 where c2: "copy_sections kas memo1 secs1 = (kas2, memo2, secs2)"
    by (cases "copy_sections kas memo1 secs1")
  from Cons.prems x c1 c2 have "secs' = secs2" by simp
  with copy_section_prefix[OF c1] Cons.IH[OF c2] show ?case by auto
qed

lemma prefix_list_update:
  "prefix xs ys \<Longrightarrow> length xs \<le> g \<Longrightarrow> prefix xs (ys[g := v])"
  by (auto simp: prefix_def list_update_append)

lemma fill_rom_prefix:
  "prefix xs secs \<Longrightarrow> length xs \<le> g \<Longrightarrow> prefix xs (fill_rom g filepath items secs)"
  by (induction g filepath items secs rule: fill_rom.induct) (simp_all add: prefix_list_update)

lemma fill_rom_length [simp]:
  "length (fill_rom g filepath items secs) = length secs"
  by (induction g filepath items secs rule: fill_rom.induct) simp_all

lemma fill_rom_map_of:
  "g < length secs \<Longrightarrow>
   map_of (fill_rom g filepath items secs ! g) k =
     (if (k, ''rom'') \<in> set items then Some filepath else map_of (secs ! g) k)"
  by (induction g filepath items secs rule: fill_rom.induct) (auto simp: update_conv')

lemma deepcopy_props:
  assumes "deepcopy a s = (installer, s2)"
  shows "installer = length (installers s)"
    and "\<exists>kas. installers s2 = installers s @
           [\<lparr>i_runner = i_runner (installers s ! a), i_game = length (sections s), i_sections = kas\<rparr>]"
    and "prefix (sections s @ [sections s ! i_game (installers s ! a)]) (sections s2)"
    and "games s2 = games s" and "events s2 = events s" and "platform s2 = platform s"
    and "auto_launch_button s2 = auto_launch_button s" and "files s2 = files s"
proof -
  let ?inst = "installers s ! a"
  let ?secs = "sections s @ [sections s ! i_game ?inst]"
  have c1: "copy_section (i_game ?inst) [] (sections s) =
      (length (sections s), [(i_game ?inst, length (sections s))], ?secs)"
    by (simp add: copy_section_def)
  obtain kas memo' secs' where c2:
    "copy_sections (i_sections ?inst) [(i_game ?inst, length (sections s))] ?secs = (kas, memo', secs')"
    by (cases "copy_sections (i_sections ?inst) [(i_game ?inst, length (sections s))] ?secs")
  from assms c1 c2 have s2: "s2 = s\<lparr>installers := installers s @
      [\<lparr>i_runner = i_runner ?inst, i_game = length (sections s), i_sections = kas\<rparr>],
      sections := secs'\<rparr>" and i: "installer = length (installers s)"
    by (simp_all add: deepcopy_def Let_def)
  show "installer = length (installers s)" by (rule i)
  show "\<exists>kas. installers s2 = installers s @
           [\<lparr>i_runner = i_runner ?inst, i_game = length (sections s), i_sections = kas\<rparr>]"
    using s2 by simp
  show "prefix ?secs (sections s2)" using s2 copy_sections_prefix[OF c2] by simp
  show "games s2 = games s" "events s2 = events s" "platform s2 = platform s"
    "auto_launch_button s2 = auto_launch_button s" "files s2 = files s"
    using s2 by simp_all
qed

lemma copy_installer_props:
  assumes "copy_installer a filepath s = (installer, s3)"
  shows "installer = length (installers s)"
    and "\<exists>kas. installers s3 = installers s @
           [\<lparr>i_runner = i_runner (installers s ! a), i_game = length (sections s), i_sections = kas\<rparr>]"
    and "prefix (sections s) (sections s3)"
    and "length (sections s) < length (sections s3)"
    and "map_of (sections s3 ! length (sections s)) k =
           (if (k, ''rom'') \<in> set (sections s ! i_game (installers s ! a)) then Some filepath
            else map_of (sections s ! i_game (installers s ! a)) k)"
    and "games s3 = games s" and "events s3 = events s" and "platform s3 = platform s"
    and "auto_launch_button s3 = auto_launch_button s" and "files s3 = files s"
proof -
  let ?tg = "sections s ! i_game (installers s ! a)"
  let ?g = "length (sections s)"
  obtain i2 s2 where d: "deepcopy a s = (i2, s2)" by (cases "deepcopy a s")
  note p = deepcopy_props[OF d]
  from p(2) obtain kas where inst: "installers s2 = installers s @
      [\<lparr>i_runner = i_runner (installers s ! a), i_game = ?g, i_sections = kas\<rparr>]" by blast
  from p(1) inst have g: "i_game (installers s2 ! i2) = ?g" by simp
  from p(3) obtain more where secs: "sections s2 = (sections s @ [?tg]) @ more"
    by (auto simp: prefix_def)
  then have at_g: "sections s2 ! ?g = ?tg" and lt: "?g < length (sections s2)"
    by (simp_all add: nth_append)
  from assms d g have s3: "s3 = s2\<lparr>sections := fill_rom ?g filepath (sections s2 ! ?g) (sections s2)\<rparr>"
    and i: "installer = i2"
    by (simp_all add: copy_installer_def Let_def)
  show "installer = length (installers s)" using i p(1) by simp
  show "\<exists>kas. installers s3 = installers s @
           [\<lparr>i_runner = i_runner (installers s ! a), i_game = ?g, i_sections = kas\<rparr>]"
    using s3 inst by simp
  have "prefix (sections s) (sections s2)" using secs by (simp add: prefix_def)
  then show "prefix (sections s) (sections s3)" using s3 by (simp add: fill_rom_prefix)
  show "?g < length (sections s3)" using s3 lt by simp
  show "map_of (sections s3 ! ?g) k =
           (if (k, ''rom'') \<in> set ?tg then Some filepath else map_of ?tg k)"
    using s3 lt at_g fill_rom_map_of[of ?g "sections s2" filepath "sections s2 ! ?g" k] by simp
  show "games s3 = games s" "events s3 = events s" "platform s3 = platform s"
    "auto_launch_button s3 = auto_launch_button s" "files s3 = files s"
    using s3 p by simp_all
qed

lemma read_copy:
  assumes "copy_installer a filepath s = (installer, s3)"
  shows "c_runner (read_installer s3 installer) = i_runner (installers s ! a)"
    and "c_game (read_installer s3 installer) = sections s3 ! length (sections s)"
  using copy_installer_props(1,2)[OF assms] by (auto simp: read_installer_def Let_def)

subsection \<open>The ways through \<open>display_game_info\<close> and \<open>add_game\<close>\<close>

lemma display_game_info_cases [case_names no_name no_category unknown known]:
  obtains
    (no_name) "rs_name rs = None"
      "display_game_info e f rs c s = (Inl (KeyError ''name''), add_event (ShowChecksum f c) s)"
  | (no_category) n where "rs_name rs = Some n" "rs_category rs = None"
      "display_game_info e f rs c s =
         (Inl (KeyError ''category''),
          add_event (ShowDescription f n) (add_event (ShowChecksum f c) s))"
  | (unknown) n cat where "rs_name rs = Some n" "rs_category rs = Some cat"
      "guess_platform e rs = None \<or> guess_platform e rs = Some []"
      "display_game_info e f rs c s =
         (Inl (RuntimeError (''The platform '' @ quoted cat @ '' is unknown to Lutris.'')),
          (add_event (ShowCategory f cat)
            (add_event (ShowDescription f n) (add_event (ShowChecksum f c) s)))
          \<lparr>platform := guess_platform e rs\<rparr>)"
  | (known) n cat p where "rs_name rs = Some n" "rs_category rs = Some cat"
      "guess_platform e rs = Some p" "p \<noteq> []"
      "display_game_info e f rs c s =
         (Inr (),
          (add_event (ShowCategory f cat)
            (add_event (ShowDescription f n) (add_event (ShowChecksum f c) s)))
          \<lparr>platform := Some p\<rparr>)"
proof (cases "rs_name rs")
  case None
  then show ?thesis using no_name by (simp add: display_game_info_def)
next
  case n: (Some n)
  show ?thesis
  proof (cases "rs_category rs")
    case None
    with n show ?thesis using no_category by (simp add: display_game_info_def)
  next
    case cat: (Some cat)
    show ?thesis
    proof (cases "guess_platform e rs")
      case None
      with n cat show ?thesis using unknown[of n cat] by (simp add: display_game_info_def)
    next
      case (Some p)
      with n cat show ?thesis using unknown[of n cat] known[of n cat p]
        by (cases "p = []") (simp_all add: display_game_info_def)
    qed
  qed
qed

lemma display_game_info_fields:
  assumes "display_game_info e f rs c s = (r, s')"
  shows "games s' = games s" "installers s' = installers s" "sections s' = sections s"
    "auto_launch_button s' = auto_launch_button s"
    "filter launch_event (events s') = filter launch_event (events s)"
    "filter (error_event p) (events s') = filter (error_event p) (events s)"
  using assms by (cases rule: display_game_info_cases[of rs e f c s]; simp; fastforce)+

lemma display_game_info_ok:
  assumes "display_game_info e f rs c s = (Inr u, s')"
  shows "\<exists>p. platform s' = Some p \<and> guess_platform e rs = Some p \<and> p \<noteq> []"
  using assms by (cases rule: display_game_info_cases[of rs e f c s]) auto

lemma add_game_unfold:
  "add_game e rs filepath s0 =
     (case rs_name rs of
        None \<Rightarrow> (Inl (KeyError ''name''), s0)
      | Some n \<Rightarrow>
          (let name = clean_rom_name e n;
               s1 = add_event (LogInfo (''Installing '' @ name)) s0
           in case (case platform s1 of None \<Rightarrow> None | Some p \<Rightarrow> DEFAULT_INSTALLERS e p) of
                None \<Rightarrow>
                  (Inl (RuntimeError (''Lutris does not have a default installer for the ''
                     @ quoted (str_platform (platform s1)) @ '' platform.'')), s1)
              | Some template \<Rightarrow>
                  (let (installer, s3) = copy_installer template filepath s1;
                       slug = slugify e name;
                       conf = read_installer s3 installer;
                       s4 = add_event (WriteGameConfig slug conf) s3
                   in case write_game_config e slug conf of
                        Inl err \<Rightarrow> (Inl err, s4)
                      | Inr configpath \<Rightarrow>
                          (let row = \<lparr>g_name = name, g_runner = c_runner conf, g_slug = slug,
                                      g_directory = [], g_installed = 1,
                                      g_installer_slug = slug @ ''-'' @ c_runner conf,
                                      g_configpath = configpath\<rparr>;
                               s5 = add_event (AddGame row) s4
                           in case games_add_game e (games s5) row of
                                Inl err \<Rightarrow> (Inl err, s5)
                              | Inr game_id \<Rightarrow>
                                  (Inr game_id,
                                   download_lutris_media slug
                                     (s5\<lparr>games := games s5 @ [(game_id, row)]\<rparr>))))))"
  by (simp add: add_game_def copy_installer_def Let_def split_beta
      split: option.splits sum.splits)

lemma add_game_cases [case_names no_name no_installer write_failed insert_failed added]:
  fixes e rs filepath s
  defines "s1 \<equiv> add_event (LogInfo (''Installing '' @ clean_rom_name e (the (rs_name rs)))) s"
    and "slug \<equiv> slugify e (clean_rom_name e (the (rs_name rs)))"
  obtains
    (no_name) "rs_name rs = None" "add_game e rs filepath s = (Inl (KeyError ''name''), s)"
  | (no_installer) "rs_name rs \<noteq> None"
      "platform s = None \<or> (\<exists>p. platform s = Some p \<and> DEFAULT_INSTALLERS e p = None)"
      "add_game e rs filepath s =
         (Inl (RuntimeError (''Lutris does not have a default installer for the ''
            @ quoted (str_platform (platform s)) @ '' platform.'')), s1)"
  | (write_failed) p template installer s3 err where "rs_name rs \<noteq> None"
      "platform s = Some p" "DEFAULT_INSTALLERS e p = Some template"
      "copy_installer template filepath s1 = (installer, s3)"
      "write_game_config e slug (read_installer s3 installer) = Inl err"
      "add_game e rs filepath s =
         (Inl err, add_event (WriteGameConfig slug (read_installer s3 installer)) s3)"
  | (insert_failed) p template installer s3 configpath row err where "rs_name rs \<noteq> None"
      "platform s = Some p" "DEFAULT_INSTALLERS e p = Some template"
      "copy_installer template filepath s1 = (installer, s3)"
      "write_game_config e slug (read_installer s3 installer) = Inr configpath"
      "row = \<lparr>g_name = clean_rom_name e (the (rs_name rs)),
              g_runner = c_runner (read_installer s3 installer), g_slug = slug,
              g_directory = [], g_installed = 1,
              g_installer_slug = slug @ ''-'' @ c_runner (read_installer s3 installer),
              g_configpath = configpath\<rparr>"
      "games_add_game e (games s) row = Inl err"
      "add_game e rs filepath s =
         (Inl err,
          add_event (AddGame row)
            (add_event (WriteGameConfig slug (read_installer s3 installer)) s3))"
  | (added) p template installer s3 configpath row game_id where "rs_name rs \<noteq> None"
      "platform s = Some p" "DEFAULT_INSTALLERS e p = Some template"
      "copy_installer template filepath s1 = (installer, s3)"
      "write_game_config e slug (read_installer s3 installer) = Inr configpath"
      "row = \<lparr>g_name = clean_rom_name e (the (rs_name rs)),
              g_runner = c_runner (read_installer s3 installer), g_slug = slug,
              g_directory = [], g_installed = 1,
              g_installer_slug = slug @ ''-'' @ c_runner (read_installer s3 installer),
              g_configpath = configpath\<rparr>"
      "games_add_game e (games s) row = Inr game_id"
      "add_game e rs filepath s =
         (Inr game_id,
          add_event (DownloadMedia slug)
            ((add_event (AddGame row)
               (add_event (WriteGameConfig slug (read_installer s3 installer)) s3))
             \<lparr>games := games s @ [(game_id, row)]\<rparr>))"
proof (cases "rs_name rs")
  case None
  then show ?thesis using no_name by (simp add: add_game_def)
next
  case n: (Some n)
  show ?thesis
  proof (cases "case platform s of None \<Rightarrow> None | Some p \<Rightarrow> DEFAULT_INSTALLERS e p")
    case None
    then have "platform s = None \<or> (\<exists>p. platform s = Some p \<and> DEFAULT_INSTALLERS e p = None)"
      by (auto split: option.splits)
    with n None show ?thesis using no_installer
      by (simp add: add_game_def s1_def Let_def)
  next
    case (Some template)
    then obtain p where p: "platform s = Some p" "DEFAULT_INSTALLERS e p = Some template"
      by (auto split: option.splits)
    obtain installer s3 where c: "copy_installer template filepath s1 = (installer, s3)"
      by (cases "copy_installer template filepath s1")
    have g3: "games s3 = games s" using copy_installer_props(6)[OF c] by (simp add: s1_def)
    let ?conf = "read_installer s3 installer"
    show ?thesis
    proof (cases "write_game_config e slug ?conf")
      case (Inl err)
      then show ?thesis
        using write_failed[OF _ p c] n p c unfolding s1_def slug_def
        by (simp add: add_game_unfold Let_def)
    next
      case w: (Inr configpath)
      let ?row = "\<lparr>g_name = clean_rom_name e (the (rs_name rs)), g_runner = c_runner ?conf,
          g_slug = slug, g_directory = [], g_installed = 1,
          g_installer_slug = slug @ ''-'' @ c_runner ?conf, g_configpath = configpath\<rparr>"
      show ?thesis
      proof (cases "games_add_game e (games s) ?row")
        case (Inl err)
        then show ?thesis
          using insert_failed[OF _ p c w refl, of err] n p c w g3 unfolding s1_def slug_def
          by (simp add: add_game_unfold Let_def)
      next
        case (Inr game_id)
        then show ?thesis
          using added[OF _ p c w refl, of game_id] n p c w g3 unfolding s1_def slug_def
          by (simp add: add_game_unfold Let_def download_lutris_media_def)
      qed
    qed
  qed
qed

lemma add_game_fields:
  assumes "add_game e rs filepath s = (r, s')"
  shows "prefix (installers s) (installers s')" "prefix (sections s) (sections s')"
    "auto_launch_button s' = auto_launch_button s" "platform s' = platform s"
    "filter launch_event (events s') = filter launch_event (events s)"
    "filter (error_event p) (events s') = filter (error_event p) (events s)"
proof -
  have "prefix (installers s) (installers s') \<and> prefix (sections s) (sections s') \<and>
    auto_launch_button s' = auto_launch_button s \<and> platform s' = platform s \<and>
    filter launch_event (events s') = filter launch_event (events s) \<and>
    filter (error_event p) (events s') = filter (error_event p) (events s)"
  proof (cases rule: add_game_cases[of rs e filepath s])
    case no_name
    with assms show ?thesis by simp
  next
    case no_installer
    with assms show ?thesis by auto
  next
    case (write_failed p template installer s3 err)
    note c = copy_installer_props[OF write_failed(4)]
    from c(2) have "prefix (installers s) (installers s3)" by auto
    with c assms write_failed(6) show ?thesis by auto
  next
    case (insert_failed p template installer s3 configpath row err)
    note c = copy_installer_props[OF insert_failed(4)]
    from c(2) have "prefix (installers s) (installers s3)" by auto
    with c assms insert_failed(8) show ?thesis by auto
  next
    case (added p template installer s3 configpath row game_id)
    note c = copy_installer_props[OF added(4)]
    from c(2) have "prefix (installers s) (installers s3)" by auto
    with c assms added(8) show ?thesis by auto
  qed
  then show "prefix (installers s) (installers s')" "prefix (sections s) (sections s')"
    "auto_launch_button s' = auto_launch_button s" "platform s' = platform s"
    "filter launch_event (events s') = filter launch_event (events s)"
    "filter (error_event p) (events s') = filter (error_event p) (events s)"
    by simp_all
qed

lemma add_game_Inl:
  assumes "add_game e rs filepath s = (Inl err, s')"
  shows "games s' = games s"
proof (cases rule: add_game_cases[of rs e filepath s])
  case no_name
  with assms show ?thesis by simp
next
  case no_installer
  from assms no_installer(3) show ?thesis by auto
next
  case (write_failed p template installer s3 err)
  from assms write_failed(6) copy_installer_props(6)[OF write_failed(4)] show ?thesis by auto
next
  case (insert_failed p template installer s3 configpath row err)
  from assms insert_failed(8) copy_installer_props(6)[OF insert_failed(4)] show ?thesis by auto
next
  case (added p template installer s3 configpath row game_id)
  from assms added(8) show ?thesis by simp
qed

lemma add_game_Inr:
  assumes "add_game e rs filepath s = (Inr game_id, s')"
  shows "\<exists>row. games s' = games s @ [(game_id, row)]"
proof (cases rule: add_game_cases[of rs e filepath s])
  case no_name
  with assms show ?thesis by simp
next
  case no_installer
  from assms no_installer(3) show ?thesis by simp
next
  case (write_failed p template installer s3 err)
  from assms write_failed(6) show ?thesis by simp
next
  case (insert_failed p template installer s3 configpath row err)
  from assms insert_failed(8) show ?thesis by simp
next
  case (added p template installer s3 configpath row game_id')
  from assms added(8) show ?thesis by auto
qed

subsection \<open>The ways through \<open>import_rom\<close>\<close>

lemma import_rom_cases [case_names error no_roms display_failed add_failed imported]:
  obtains
    (error) err where "rs_error rs = Some err"
      "import_rom e rs f launch_game s =
         (False, add_event (ShowError f (str_error err))
                   (add_event (LogException err) (add_event (HideProgress f) s)))"
  | (no_roms) "rs_error rs = None" "rs_roms rs = []"
      "import_rom e rs f launch_game s = (False, add_event (HideProgress f) s)"
  | (display_failed) rom rest err s2 where "rs_error rs = None" "rs_roms rs = rom # rest"
      "display_game_info e f rs (rom_md5 rom) (add_event (HideProgress f) s) = (Inl err, s2)"
      "import_rom e rs f launch_game s =
         (False, add_event (ShowError f (str_error err)) (add_event (LogException err) s2))"
  | (add_failed) rom rest s2 err s3 where "rs_error rs = None" "rs_roms rs = rom # rest"
      "display_game_info e f rs (rom_md5 rom) (add_event (HideProgress f) s) = (Inr (), s2)"
      "add_game e rs f s2 = (Inl err, s3)"
      "import_rom e rs f launch_game s =
         (False, add_event (ShowError f (str_error err)) (add_event (LogException err) s3))"
  | (imported) rom rest s2 game_id s3 where "rs_error rs = None" "rs_roms rs = rom # rest"
      "display_game_info e f rs (rom_md5 rom) (add_event (HideProgress f) s) = (Inr (), s2)"
      "add_game e rs f s2 = (Inr game_id, s3)"
      "import_rom e rs f launch_game s =
         (True,
          if launch_game
          then game_launch (Game game_id)
                 (add_event (Emit (Game game_id) ''game-updated'')
                   (add_event (Emit (Game game_id) ''game-installed'') s3))
          else add_event (Emit (Game game_id) ''game-updated'')
                 (add_event (Emit (Game game_id) ''game-installed'') s3))"
proof (cases "rs_error rs")
  case (Some err)
  then show ?thesis using error by (simp add: import_rom_def try_import_def)
next
  case None
  show ?thesis
  proof (cases "rs_roms rs")
    case Nil
    with None show ?thesis using no_roms by (simp add: import_rom_def try_import_def)
  next
    case (Cons rom rest)
    obtain r s2 where d:
      "display_game_info e f rs (rom_md5 rom) (add_event (HideProgress f) s) = (r, s2)"
      by (cases "display_game_info e f rs (rom_md5 rom) (add_event (HideProgress f) s)")
    show ?thesis
    proof (cases r)
      case (Inl err)
      with None Cons d show ?thesis using display_failed[of rom rest err s2]
        by (simp add: import_rom_def try_import_def)
    next
      case (Inr u)
      obtain r' s3 where a: "add_game e rs f s2 = (r', s3)" by (cases "add_game e rs f s2")
      show ?thesis
      proof (cases r')
        case (Inl err)
        with None Cons d Inr a show ?thesis using add_failed[of rom rest s2 err s3]
          by (simp add: import_rom_def try_import_def)
      next
        case g: (Inr game_id)
        with None Cons d Inr a show ?thesis using imported[of rom rest s2 game_id s3]
          by (simp add: import_rom_def try_import_def Let_def)
      qed
    qed
  qed
qed

lemma import_rom_fields:
  assumes "import_rom e rs f launch_game s = (ok, s')"
  shows "prefix (installers s) (installers s')" "prefix (sections s) (sections s')"
    "auto_launch_button s' = auto_launch_button s"
proof -
  have "prefix (installers s) (installers s') \<and> prefix (sections s) (sections s') \<and>
    auto_launch_button s' = auto_launch_button s"
  proof (cases rule: import_rom_cases[of rs e f launch_game s])
    case (error err)
    with assms show ?thesis by auto
  next
    case no_roms
    with assms show ?thesis by auto
  next
    case (display_failed rom rest err s2)
    with assms display_game_info_fields(1-4)[OF display_failed(3)] show ?thesis by auto
  next
    case (add_failed rom rest s2 err s3)
    with assms display_game_info_fields(1-4)[OF add_failed(3)] add_game_fields(1-3)[OF add_failed(4)]
    show ?thesis by auto
  next
    case (imported rom rest s2 game_id s3)
    with assms display_game_info_fields(1-4)[OF imported(3)] add_game_fields(1-3)[OF imported(4)]
    show ?thesis by (cases launch_game) auto
  qed
  then show "prefix (installers s) (installers s')" "prefix (sections s) (sections s')"
    "auto_launch_button s' = auto_launch_button s" by simp_all
qed

lemma import_rom_failed:
  assumes "import_rom e rs f launch_game s = (False, s')"
  shows "games s' = games s"
    and "filter launch_event (events s') = filter launch_event (events s)"
    and "p \<noteq> f \<Longrightarrow> filter (error_event p) (events s') = filter (error_event p) (events s)"
    and "rs_error rs \<noteq> None \<or> rs_roms rs \<noteq> [] \<Longrightarrow>
         \<exists>msg. filter (error_event f) (events s') = filter (error_event f) (events s) @ [ShowError f msg]"
    and "rs_error rs = None \<Longrightarrow> rs_roms rs = [] \<Longrightarrow> s' = add_event (HideProgress f) s"
proof -
  have "games s' = games s \<and>
    filter launch_event (events s') = filter launch_event (events s) \<and>
    (p \<noteq> f \<longrightarrow> filter (error_event p) (events s') = filter (error_event p) (events s)) \<and>
    (rs_error rs \<noteq> None \<or> rs_roms rs \<noteq> [] \<longrightarrow>
       (\<exists>msg. filter (error_event f) (events s') = filter (error_event f) (events s) @ [ShowError f msg])) \<and>
    (rs_error rs = None \<longrightarrow> rs_roms rs = [] \<longrightarrow> s' = add_event (HideProgress f) s)"
  proof (cases rule: import_rom_cases[of rs e f launch_game s])
    case (error err)
    with assms show ?thesis by auto
  next
    case no_roms
    with assms show ?thesis by auto
  next
    case (display_failed rom rest err s2)
    with assms display_game_info_fields[OF display_failed(3)] show ?thesis by auto
  next
    case (add_failed rom rest s2 err s3)
    with assms display_game_info_fields[OF add_failed(3)] add_game_fields[OF add_failed(4)]
      add_game_Inl[OF add_failed(4)]
    show ?thesis by auto
  next
    case (imported rom rest s2 game_id s3)
    with assms show ?thesis by simp
  qed
  then show "games s' = games s"
    and "filter launch_event (events s') = filter launch_event (events s)"
    and "p \<noteq> f \<Longrightarrow> filter (error_event p) (events s') = filter (error_event p) (events s)"
    and "rs_error rs \<noteq> None \<or> rs_roms rs \<noteq> [] \<Longrightarrow>
         \<exists>msg. filter (error_event f) (events s') = filter (error_event f) (events s) @ [ShowError f msg]"
    and "rs_error rs = None \<Longrightarrow> rs_roms rs = [] \<Longrightarrow> s' = add_event (HideProgress f) s"
    by simp_all
qed

lemma import_rom_imported:
  assumes "import_rom e rs f launch_game s = (True, s')"
  shows "\<exists>game_id row. games s' = games s @ [(game_id, row)] \<and>
      filter launch_event (events s') =
        filter launch_event (events s) @
        (if launch_game then [Emit (Game game_id) ''game-launch'', Destroy] else [])"
    and "filter (error_event p) (events s') = filter (error_event p) (events s)"
proof -
  have "(\<exists>game_id row. games s' = games s @ [(game_id, row)] \<and>
      filter launch_event (events s') =
        filter launch_event (events s) @
        (if launch_game then [Emit (Game game_id) ''game-launch'', Destroy] else [])) \<and>
    filter (error_event p) (events s') = filter (error_event p) (events s)"
  proof (cases rule: import_rom_cases[of rs e f launch_game s])
    case (imported rom rest s2 game_id s3)
    from add_game_Inr[OF imported(4)] obtain row where
      "games s3 = games s2 @ [(game_id, row)]" by auto
    with assms imported(5) display_game_info_fields[OF imported(3)] add_game_fields[OF imported(4)]
    show ?thesis by (cases launch_game) auto
  qed (use assms in simp_all)
  then show "\<exists>game_id row. games s' = games s @ [(game_id, row)] \<and>
      filter launch_event (events s') =
        filter launch_event (events s) @
        (if launch_game then [Emit (Game game_id) ''game-launch'', Destroy] else [])"
    and "filter (error_event p) (events s') = filter (error_event p) (events s)"
    by simp_all
qed

subsection \<open>The loops of \<open>search_result_finished\<close>\<close>

lemma import_result_step:
  "import_result e f l (rs # res) s =
     (if fst (import_rom e rs f l s) then (l, snd (import_rom e rs f l s))
      else import_result e f l res (snd (import_rom e rs f l s)))"
  by (simp add: split_beta)

lemma import_results_step:
  "import_results e l ((f, res) # results) s =
     (if fst (import_result e f l res s) then (True, snd (import_result e f l res s))
      else import_results e l results (snd (import_result e f l res s)))"
  by (simp add: split_beta)

lemma import_result_frame:
  "prefix (installers s) (installers (snd (import_result e f l res s))) \<and>
   prefix (sections s) (sections (snd (import_result e f l res s))) \<and>
   auto_launch_button (snd (import_result e f l res s)) = auto_launch_button s"
proof (induction res arbitrary: s)
  case Nil
  show ?case by simp
next
  case (Cons rs res)
  note r = import_rom_fields[OF prod.collapse[symmetric, of "import_rom e rs f l s"]]
  show ?case
  proof (cases "fst (import_rom e rs f l s)")
    case True
    with r show ?thesis by (simp del: import_result.simps add: import_result_step)
  next
    case False
    with r Cons.IH[of "snd (import_rom e rs f l s)"] show ?thesis
      by (auto simp del: import_result.simps simp add: import_result_step
          intro: prefix_order.trans)
  qed
qed

lemma import_result_outcome:
  "import_result e f l res s = (stop, s') \<Longrightarrow>
   (if stop
    then l \<and> (\<exists>game_id row. games s' = games s @ [(game_id, row)] \<and>
           filter launch_event (events s') =
             filter launch_event (events s) @ [Emit (Game game_id) ''game-launch'', Destroy])
    else filter launch_event (events s') = filter launch_event (events s) \<and>
         (l \<longrightarrow> games s' = games s))"
proof (induction res arbitrary: s)
  case Nil
  then show ?case by auto
next
  case (Cons rs res)
  obtain ok s1 where r: "import_rom e rs f l s = (ok, s1)" by (cases "import_rom e rs f l s")
  show ?case
  proof (cases ok)
    case True
    with r Cons.prems have eq: "stop = l" "s' = s1" by (simp_all add: import_result_step)
    from r True have r': "import_rom e rs f l s = (True, s1)" by simp
    from import_rom_imported(1)[OF r'] eq show ?thesis by (cases l) auto
  next
    case False
    with r Cons.prems have "import_result e f l res s1 = (stop, s')"
      by (simp add: import_result_step)
    moreover from r False have r': "import_rom e rs f l s = (False, s1)" by simp
    ultimately show ?thesis using Cons.IH[of s1] import_rom_failed(1,2)[OF r']
      by (cases stop) auto
  qed
qed

lemma import_results_frame:
  "prefix (installers s) (installers (snd (import_results e l results s))) \<and>
   prefix (sections s) (sections (snd (import_results e l results s))) \<and>
   auto_launch_button (snd (import_results e l results s)) = auto_launch_button s"
proof (induction results arbitrary: s)
  case Nil
  show ?case by simp
next
  case (Cons x results)
  obtain f res where x: "x = (f, res)" by (cases x)
  note r = import_result_frame[of s e f l res]
  show ?case
  proof (cases "fst (import_result e f l res s)")
    case True
    with r x show ?thesis by (simp del: import_results.simps add: import_results_step)
  next
    case False
    with r x Cons.IH[of "snd (import_result e f l res s)"] show ?thesis
      by (auto simp del: import_results.simps simp add: import_results_step
          intro: prefix_order.trans)
  qed
qed

lemma import_results_outcome:
  "import_results e l results s = (stop, s') \<Longrightarrow>
   (if stop
    then l \<and> (\<exists>game_id row. games s' = games s @ [(game_id, row)] \<and>
           filter launch_event (events s') =
             filter launch_event (events s) @ [Emit (Game game_id) ''game-launch'', Destroy])
    else filter launch_event (events s') = filter launch_event (events s) \<and>
         (l \<longrightarrow> games s' = games s))"
proof (induction results arbitrary: s)
  case Nil
  then show ?case by auto
next
  case (Cons x results)
  obtain f res where x: "x = (f, res)" by (cases x)
  obtain st s1 where r: "import_result e f l res s = (st, s1)" by (cases "import_result e f l res s")
  show ?case
  proof (cases st)
    case True
    with r x Cons.prems have eq: "stop = True" "s' = s1" by (simp_all add: import_results_step)
    from import_result_outcome[OF r] True eq show ?thesis by simp
  next
    case False
    with r x Cons.prems have "import_results e l results s1 = (stop, s')"
      by (simp add: import_results_step)
    from Cons.IH[OF this] import_result_outcome[OF r] False show ?thesis
      by (cases stop) auto
  qed
qed

lemma import_results_append:
  "import_results e l (xs @ ys) s =
     (if fst (import_results e l xs s) then (True, snd (import_results e l xs s))
      else import_results e l ys (snd (import_results e l xs s)))"
proof (induction xs arbitrary: s)
  case Nil
  show ?case by simp
next
  case (Cons x xs)
  obtain f res where x: "x = (f, res)" by (cases x)
  show ?case using Cons.IH[of "snd (import_result e f l res s)"] x
    by (simp del: import_results.simps add: import_results_step)
qed

lemma installed_in_result_Some:
  "installed_in_result res = Some g \<Longrightarrow> \<exists>rs\<in>set res. rs_game rs = Some g"
  by (induction res) (auto split: option.splits)

lemma installed_in_result_None:
  "installed_in_result res = None \<longleftrightarrow> (\<forall>rs\<in>set res. rs_game rs = None)"
  by (induction res) (auto split: option.splits)

lemma installed_in_results_Some:
  "installed_in_results results = Some g \<Longrightarrow>
   \<exists>(f, res)\<in>set results. \<exists>rs\<in>set res. rs_game rs = Some g"
  by (induction results) (auto split: option.splits dest: installed_in_result_Some)

lemma installed_in_results_None:
  "installed_in_results results = None \<longleftrightarrow>
   (\<forall>(f, res)\<in>set results. \<forall>rs\<in>set res. rs_game rs = None)"
  by (induction results) (auto split: option.splits simp: installed_in_result_None)

subsection \<open>Launching an installed game\<close>

text \<open>
  Claim C3. With the check button active, if some file of the results has a rom set of an
  installed game, the callback only launches a game and closes the dialog: the game of the
  first such rom set in the order of the results, wherever its file stands. Nothing else
  changes: no label, no installer copy, no configuration, no database row.
\<close>

theorem installed_game_launched_first:
  assumes "auto_launch_button s" and "(f, res) \<in> set results" and "rs \<in> set res"
    and "rs_game rs \<noteq> None"
  shows "\<exists>g. installed_in_results results = Some g \<and>
      (\<exists>(f', res')\<in>set results. \<exists>rs'\<in>set res'. rs_game rs' = Some g) \<and>
      search_result_finished e results None s =
        s\<lparr>events := events s @ [Emit g ''game-launch'', Destroy]\<rparr>"
proof -
  from assms(2-4) have "installed_in_results results \<noteq> None"
    unfolding installed_in_results_None by fastforce
  then obtain g where g: "installed_in_results results = Some g" by auto
  with assms(1) have "search_result_finished e results None s =
      s\<lparr>events := events s @ [Emit g ''game-launch'', Destroy]\<rparr>"
    by (simp add: search_result_finished_def game_launch_def add_event_def)
  with g installed_in_results_Some[OF g] show ?thesis by blast
qed

theorem installed_game_launched_first_witness:
  "auto_launch_button (state0\<lparr>auto_launch_button := True\<rparr>) \<and>
   (''/roms/old.sfc'', [game_set env0 7]) \<in>
     set [(''/roms/a.sfc'', [snes_set ''Game A'']), (''/roms/old.sfc'', [game_set env0 7])] \<and>
   rs_game (game_set env0 7) \<noteq> None \<and>
   search_result_finished env0
     [(''/roms/a.sfc'', [snes_set ''Game A'']), (''/roms/old.sfc'', [game_set env0 7])] None
     (state0\<lparr>auto_launch_button := True\<rparr>) =
   state0\<lparr>auto_launch_button := True, events := [Emit (Game 7) ''game-launch'', Destroy]\<rparr>"
  using installed_game_launched_first[of "state0\<lparr>auto_launch_button := True\<rparr>"
      "''/roms/old.sfc''" "[game_set env0 7]"
      "[(''/roms/a.sfc'', [snes_set ''Game A'']), (''/roms/old.sfc'', [game_set env0 7])]"
      "game_set env0 7" env0]
  by (simp add: game_set_def snes_set_def state0_def)

subsection \<open>The check button\<close>

text \<open>
  Claim C10. The check button starts active iff the dialog gets exactly one file. With any
  other number of files, a run in which the user leaves the button alone launches nothing:
  it adds no launch signal and does not close the dialog.
\<close>

theorem auto_launch_default:
  "(auto_launch_button (init fs s) \<longleftrightarrow> length fs = 1) \<and>
   (length fs \<noteq> 1 \<longrightarrow>
      filter launch_event (events (import_dialog e fs s)) = filter launch_event (events s))"
proof -
  have b: "auto_launch_button (init fs s) \<longleftrightarrow> length fs = 1" by (simp add: init_def)
  obtain results s' where sc: "search_checksums e (init fs s) = (results, s')"
    by (cases "search_checksums e (init fs s)")
  then have s': "s' = snd (search_loop e (get_path_cache e) (files (init fs s)) [] (init fs s))"
    by (simp add: search_checksums_def)
  have ev: "filter launch_event (events s') = filter launch_event (events s)"
    and bt: "auto_launch_button s' \<longleftrightarrow> length fs = 1"
    unfolding s' by (simp_all add: init_def)
  have "filter launch_event (events (import_dialog e fs s)) = filter launch_event (events s)"
    if "length fs \<noteq> 1"
  proof -
    from that bt have off: "\<not> auto_launch_button s'" by simp
    obtain stop s'' where r: "import_results e False results s' = (stop, s'')"
      by (cases "import_results e False results s'")
    from import_results_outcome[OF r] have "\<not> stop"
      and "filter launch_event (events s'') = filter launch_event (events s')" by (auto split: if_splits)
    with sc off r ev show ?thesis
      by (simp add: import_dialog_def search_result_finished_def)
  qed
  with b show ?thesis by blast
qed

theorem auto_launch_default_witness:
  "auto_launch_button (init [''/roms/a.sfc''] state0) \<and>
   \<not> auto_launch_button (init [''/roms/a.sfc'', ''/roms/b.sfc''] state0) \<and>
   \<not> auto_launch_button (init [] state0) \<and>
   filter launch_event (events (import_dialog env0 [''/roms/a.sfc'', ''/roms/b.sfc''] state0)) = []"
  using auto_launch_default[of "[''/roms/a.sfc'']" state0 env0]
    auto_launch_default[of "[''/roms/a.sfc'', ''/roms/b.sfc'']" state0 env0]
    auto_launch_default[of "[]" state0 env0]
  by (simp add: state0_def)

subsection \<open>The first import\<close>

lemma update_new_key:
  "k \<notin> fst ` set al \<Longrightarrow> AList.update k v al = al @ [(k, v)]"
  by (induction al) auto

lemma search_loop_order:
  "distinct (map fst rs @ fs) \<Longrightarrow> map fst (fst (search_loop e c fs rs s)) = map fst rs @ fs"
proof (induction fs arbitrary: rs s)
  case Nil
  show ?case by simp
next
  case (Cons f fs)
  from Cons.prems have new: "f \<notin> fst ` set rs" by auto
  let ?rs = "AList.update f (fst (search_file e c f s)) rs"
  have rs: "?rs = rs @ [(f, fst (search_file e c f s))]" using new by (rule update_new_key)
  from Cons.prems have "distinct (map fst ?rs @ fs)" unfolding rs by auto
  from Cons.IH[OF this, of "snd (search_file e c f s)"] show ?case
    unfolding rs by (simp add: split_beta rs)
qed

lemma search_checksums_order:
  "distinct (files s) \<Longrightarrow> map fst (fst (search_checksums e s)) = files s"
  using search_loop_order[of "[]" "files s" e "get_path_cache e" s]
  by (simp add: search_checksums_def)

text \<open>
  Claim C4. The results keep the order of the files (of files that are all different).
  With the check button active and no rom set of an installed game in the results, the
  files are taken in that order. If no file before \<open>f\<close> was imported and \<open>f\<close> is, the
  callback ends in the state reached right after the import of \<open>f\<close>, whatever files
  follow: they are not touched. The whole callback has then added exactly one database
  row, and launched exactly that game.
\<close>

theorem first_import_launched:
  assumes "auto_launch_button s"
    and "installed_in_results (pre @ (f, res) # post) = None"
    and "import_results e True pre s = (False, s1)"
    and "import_result e f True res s1 = (True, s2)"
  shows "search_result_finished e (pre @ (f, res) # post) None s = s2 \<and>
    (\<exists>game_id row. games s2 = games s @ [(game_id, row)] \<and>
       filter launch_event (events s2) =
         filter launch_event (events s) @ [Emit (Game game_id) ''game-launch'', Destroy]) \<and>
    (distinct (files s0) \<longrightarrow> map fst (fst (search_checksums e s0)) = files s0)"
proof -
  from assms(3,4) have "import_results e True (pre @ (f, res) # post) s = (True, s2)"
    by (simp del: import_results.simps add: import_results_append import_results_step)
  with assms(1,2) have "search_result_finished e (pre @ (f, res) # post) None s = s2"
    by (simp add: search_result_finished_def)
  moreover from import_results_outcome[OF assms(3)] import_result_outcome[OF assms(4)]
  have "\<exists>game_id row. games s2 = games s @ [(game_id, row)] \<and>
       filter launch_event (events s2) =
         filter launch_event (events s) @ [Emit (Game game_id) ''game-launch'', Destroy]"
    by auto
  ultimately show ?thesis using search_checksums_order[of s0 e] by blast
qed

theorem first_import_launched_witness:
  "auto_launch_button (state0\<lparr>auto_launch_button := True\<rparr>) \<and>
   installed_in_results
     ([] @ (''/roms/a.sfc'', [snes_set ''Game A'']) #
        [(''/roms/b.sfc'', [snes_set ''Game B'']), (''/roms/c.sfc'', [snes_set ''Game C''])]) = None \<and>
   import_results env0 True [] (state0\<lparr>auto_launch_button := True\<rparr>) =
     (False, state0\<lparr>auto_launch_button := True\<rparr>) \<and>
   fst (import_result env0 ''/roms/a.sfc'' True [snes_set ''Game A'']
          (state0\<lparr>auto_launch_button := True\<rparr>)) \<and>
   search_result_finished env0
     ([] @ (''/roms/a.sfc'', [snes_set ''Game A'']) #
        [(''/roms/b.sfc'', [snes_set ''Game B'']), (''/roms/c.sfc'', [snes_set ''Game C''])])
     None (state0\<lparr>auto_launch_button := True\<rparr>) =
   snd (import_result env0 ''/roms/a.sfc'' True [snes_set ''Game A'']
          (state0\<lparr>auto_launch_button := True\<rparr>)) \<and>
   distinct (files (init [''/roms/a.sfc'', ''/roms/b.sfc'', ''/roms/c.sfc''] state0)) \<and>
   map fst (fst (search_checksums env0 (init [''/roms/a.sfc'', ''/roms/b.sfc'', ''/roms/c.sfc''] state0))) =
     [''/roms/a.sfc'', ''/roms/b.sfc'', ''/roms/c.sfc'']"
proof -
  let ?s = "state0\<lparr>auto_launch_button := True\<rparr>"
  let ?post = "[(''/roms/b.sfc'', [snes_set ''Game B'']), (''/roms/c.sfc'', [snes_set ''Game C''])]"
  let ?ini = "init [''/roms/a.sfc'', ''/roms/b.sfc'', ''/roms/c.sfc''] state0"
  have h1: "auto_launch_button ?s" by simp
  have h2: "installed_in_results ([] @ (''/roms/a.sfc'', [snes_set ''Game A'']) # ?post) = None"
    by (simp add: snes_set_def)
  have h3: "import_results env0 True [] ?s = (False, ?s)" by simp
  have ev: "fst (import_result env0 ''/roms/a.sfc'' True [snes_set ''Game A''] ?s)"
    by code_simp
  then have h4: "import_result env0 ''/roms/a.sfc'' True [snes_set ''Game A''] ?s =
      (True, snd (import_result env0 ''/roms/a.sfc'' True [snes_set ''Game A''] ?s))"
    by (simp add: prod_eq_iff)
  have fs: "files ?ini = [''/roms/a.sfc'', ''/roms/b.sfc'', ''/roms/c.sfc'']"
    by (simp add: init_def)
  then have h5: "distinct (files ?ini)" by simp
  from first_import_launched[OF h1 h2 h3 h4, of ?ini] h1 h2 h3 ev h5 fs show ?thesis
    by simp
qed

subsection \<open>Unknown platforms\<close>

text \<open>
  Claim C6, as the code has it. A rom set with a name, a category and a rom, whose platform
  \<open>guess_platform\<close> does not know, is not imported: \<open>import_rom\<close> shows the labels, logs and
  shows the error about the unknown platform, and returns \<open>False\<close>. The heap and the
  database rows stay as they were, and the table of default installers plays no part:
  with any other table the result is the same.
\<close>

theorem unknown_platform_fails:
  assumes "rs_error rs = None" and "rs_roms rs = rom # rest"
    and "rs_name rs = Some n" and "rs_category rs = Some cat"
    and "guess_platform e rs = None \<or> guess_platform e rs = Some []"
  shows "import_rom e rs f launch_game s =
      (False,
       s\<lparr>platform := guess_platform e rs,
         events := events s @
           [HideProgress f, ShowChecksum f (rom_md5 rom), ShowDescription f n, ShowCategory f cat,
            LogException (RuntimeError (''The platform '' @ quoted cat @ '' is unknown to Lutris.'')),
            ShowError f (''The platform '' @ quoted cat @ '' is unknown to Lutris.'')]\<rparr>) \<and>
    import_rom (e\<lparr>DEFAULT_INSTALLERS := d\<rparr>) rs f launch_game s = import_rom e rs f launch_game s"
proof -
  have one: "import_rom e' rs f launch_game s =
      (False,
       s\<lparr>platform := guess_platform e rs,
         events := events s @
           [HideProgress f, ShowChecksum f (rom_md5 rom), ShowDescription f n, ShowCategory f cat,
            LogException (RuntimeError (''The platform '' @ quoted cat @ '' is unknown to Lutris.'')),
            ShowError f (''The platform '' @ quoted cat @ '' is unknown to Lutris.'')]\<rparr>)"
    if "guess_platform e' rs = guess_platform e rs" for e'
  proof -
    from assms(5) that have "display_game_info e' f rs (rom_md5 rom) (add_event (HideProgress f) s) =
      (Inl (RuntimeError (''The platform '' @ quoted cat @ '' is unknown to Lutris.'')),
       (add_event (ShowCategory f cat)
          (add_event (ShowDescription f n)
            (add_event (ShowChecksum f (rom_md5 rom)) (add_event (HideProgress f) s))))
       \<lparr>platform := guess_platform e rs\<rparr>)"
      using assms(3,4)
      by (cases rule: display_game_info_cases[of rs e' f "rom_md5 rom" "add_event (HideProgress f) s"])
         auto
    with assms(1,2) show ?thesis
      by (simp add: import_rom_def try_import_def add_event_def)
  qed
  from one[of e] one[of "e\<lparr>DEFAULT_INSTALLERS := d\<rparr>"] show ?thesis by simp
qed

theorem unknown_platform_fails_witness:
  "rs_error odd_set = None \<and> rs_roms odd_set = Rom ''0a0a'' # [] \<and>
   rs_name odd_set = Some ''Odd'' \<and> rs_category odd_set = Some ''Abacus'' \<and>
   guess_platform env0 odd_set = None \<and>
   import_rom env0 odd_set ''/roms/odd.bin'' False state0 =
     (False,
      state0\<lparr>platform := None,
        events :=
          [HideProgress ''/roms/odd.bin'', ShowChecksum ''/roms/odd.bin'' ''0a0a'',
           ShowDescription ''/roms/odd.bin'' ''Odd'', ShowCategory ''/roms/odd.bin'' ''Abacus'',
           LogException (RuntimeError (''The platform '' @ quoted ''Abacus'' @ '' is unknown to Lutris.'')),
           ShowError ''/roms/odd.bin'' (''The platform '' @ quoted ''Abacus'' @ '' is unknown to Lutris.'')]\<rparr>)"
  using unknown_platform_fails[of odd_set "Rom ''0a0a''" "[]" "''Odd''" "''Abacus''" env0
      "''/roms/odd.bin''" False state0]
  by (simp add: odd_set_def env0_def state0_def)

text \<open>
  Against claim C6 as it was put. A rom set of an unknown platform that lists no rom is
  not looked at: \<open>import_rom\<close> returns \<open>False\<close> and shows no failure. And the file
  \<open>/roms/two.bin\<close>, whose first rom set is of an unknown platform, ends with a new
  database row, from its second rom set.
\<close>

theorem unknown_platform_counterexample:
  "guess_platform env0 hollow_odd_set = None \<and>
   import_rom env0 hollow_odd_set ''/roms/odd.bin'' False state0 =
     (False, state0\<lparr>events := [HideProgress ''/roms/odd.bin'']\<rparr>) \<and>
   \<not> recorded_failure ''/roms/odd.bin'' state0
       (snd (import_rom env0 hollow_odd_set ''/roms/odd.bin'' False state0)) \<and>
   guess_platform env0 odd_set = None \<and>
   fst (search_file env0 (get_path_cache env0) ''/roms/two.bin'' state0) =
     [odd_set, snes_set ''Game T''] \<and>
   created_record state0
     (snd (import_result env0 ''/roms/two.bin'' False [odd_set, snes_set ''Game T''] state0))"
  by code_simp

subsection \<open>Failed lookups\<close>

text \<open>
  Claim C7, as the code has it. For a file outside the path cache whose checksum was
  computed: when the catalog returns nothing, the file's result is the error
  \<open>This ROM could not be identified.\<close>; when the lookup raises, the result is the error the
  lookup raised, not that message. Importing a result that holds an error logs it, shows
  its text on the file's label, adds no game and returns \<open>False\<close>; the loops go on: the
  worker with the next file, the callback with the files that follow.
\<close>

theorem failed_lookup_recorded:
  assumes "f \<notin> snd ` set c" and "md5_call e f = Inr m"
  shows "(search_tosec_by_md5 e m = Inr [] \<longrightarrow>
       fst (search_file e c f s) = [error_set (RuntimeError ''This ROM could not be identified.'')]) \<and>
    (\<forall>err. search_tosec_by_md5 e m = Inl err \<longrightarrow> fst (search_file e c f s) = [error_set err]) \<and>
    (search_loop e c (f # fs) results s =
       search_loop e c fs (AList.update f (fst (search_file e c f s)) results)
         (snd (search_file e c f s))) \<and>
    (\<forall>err launch_game s' rest.
       import_results e launch_game ((f, [error_set err]) # rest) s' =
       import_results e launch_game rest
         (s'\<lparr>events := events s' @ [HideProgress f, LogException err, ShowError f (str_error err)]\<rparr>))"
proof -
  have a: "search_tosec_by_md5 e m = Inr [] \<Longrightarrow>
       fst (search_file e c f s) = [error_set (RuntimeError ''This ROM could not be identified.'')]"
    using assms by (cases rule: search_file_cases[of f c e s]) simp_all
  have b: "search_tosec_by_md5 e m = Inl err \<Longrightarrow> fst (search_file e c f s) = [error_set err]" for err
    using assms by (cases rule: search_file_cases[of f c e s]) simp_all
  have c: "search_loop e c (f # fs) results s =
       search_loop e c fs (AList.update f (fst (search_file e c f s)) results)
         (snd (search_file e c f s))"
    by (simp add: split_beta)
  have d: "import_results e launch_game ((f, [error_set err]) # rest) s' =
       import_results e launch_game rest
         (s'\<lparr>events := events s' @ [HideProgress f, LogException err, ShowError f (str_error err)]\<rparr>)"
    for err launch_game s' rest
    by (simp add: import_rom_def try_import_def error_set_def add_event_def)
  from a b c d show ?thesis by blast
qed

theorem failed_lookup_recorded_witness:
  "''/roms/down.bin'' \<notin> snd ` set (get_path_cache env0) \<and>
   md5_call env0 ''/roms/down.bin'' = Inr ''h:/roms/down.bin'' \<and>
   search_tosec_by_md5 env0 ''h:/roms/down.bin'' = Inl (Exception ''connection refused'') \<and>
   fst (search_file env0 (get_path_cache env0) ''/roms/down.bin'' state0) =
     [error_set (Exception ''connection refused'')] \<and>
   ''/roms/none.bin'' \<notin> snd ` set (get_path_cache env0) \<and>
   md5_call env0 ''/roms/none.bin'' = Inr ''h:/roms/none.bin'' \<and>
   search_tosec_by_md5 env0 ''h:/roms/none.bin'' = Inr [] \<and>
   fst (search_file env0 (get_path_cache env0) ''/roms/none.bin'' state0) =
     [error_set (RuntimeError ''This ROM could not be identified.'')]"
proof -
  have h1: "''/roms/down.bin'' \<notin> snd ` set (get_path_cache env0)"
    and h2: "md5_call env0 ''/roms/down.bin'' = Inr ''h:/roms/down.bin''"
    and h3: "search_tosec_by_md5 env0 ''h:/roms/down.bin'' = Inl (Exception ''connection refused'')"
    and k1: "''/roms/none.bin'' \<notin> snd ` set (get_path_cache env0)"
    and k2: "md5_call env0 ''/roms/none.bin'' = Inr ''h:/roms/none.bin''"
    and k3: "search_tosec_by_md5 env0 ''h:/roms/none.bin'' = Inr []"
    by (simp_all add: env0_def md5_call_def endswith_def lower_def lower_char_def)
  from failed_lookup_recorded[OF h1 h2, where s=state0]
    failed_lookup_recorded[OF k1 k2, where s=state0] h1 h2 h3 k1 k2 k3
  show ?thesis by blast
qed

text \<open>
  Against claim C7 as it was put: the lookup of \<open>/roms/down.bin\<close> raises, and the result
  of the file, and the text shown on its label, is the error of the lookup, not the
  message that the ROM could not be identified.
\<close>

theorem lookup_error_kept_counterexample:
  "search_tosec_by_md5 env0 ''h:/roms/down.bin'' = Inl (Exception ''connection refused'') \<and>
   fst (search_file env0 (get_path_cache env0) ''/roms/down.bin'' state0) \<noteq>
     [error_set (RuntimeError ''This ROM could not be identified.'')] \<and>
   import_result env0 ''/roms/down.bin'' False
     (fst (search_file env0 (get_path_cache env0) ''/roms/down.bin'' state0)) state0 =
   (False,
    state0\<lparr>events := [HideProgress ''/roms/down.bin'', LogException (Exception ''connection refused''),
       ShowError ''/roms/down.bin'' ''connection refused'']\<rparr>)"
  by code_simp

subsection \<open>The row of an imported game\<close>

text \<open>
  Claim C9. When \<open>add_game\<close> returns a game id, the platform has a template, the
  configuration was written under the slug of the cleaned name and the writer returned a
  path, and exactly one row was added: the cleaned name, the runner of the template, the
  slug, an empty directory, \<open>installed = 1\<close>, the installer slug \<open>slug-runner\<close> and the path
  the writer returned. In the configuration that was written, every key of the game
  section that held \<open>rom\<close> in the template holds the file's path, and every other key
  holds what the template holds.
\<close>

theorem added_game_row:
  assumes "add_game e rs filepath s = (Inr game_id, s')" and "rs_name rs = Some n"
  shows "\<exists>p template conf configpath.
      platform s = Some p \<and> DEFAULT_INSTALLERS e p = Some template \<and>
      write_game_config e (slugify e (clean_rom_name e n)) conf = Inr configpath \<and>
      take 2 (drop (Suc (length (events s))) (events s')) =
        [WriteGameConfig (slugify e (clean_rom_name e n)) conf,
         AddGame \<lparr>g_name = clean_rom_name e n,
                  g_runner = i_runner (installers s ! template),
                  g_slug = slugify e (clean_rom_name e n),
                  g_directory = [], g_installed = 1,
                  g_installer_slug =
                    slugify e (clean_rom_name e n) @ ''-'' @ i_runner (installers s ! template),
                  g_configpath = configpath\<rparr>] \<and>
      games s' = games s @
        [(game_id,
          \<lparr>g_name = clean_rom_name e n,
           g_runner = i_runner (installers s ! template),
           g_slug = slugify e (clean_rom_name e n),
           g_directory = [], g_installed = 1,
           g_installer_slug =
             slugify e (clean_rom_name e n) @ ''-'' @ i_runner (installers s ! template),
           g_configpath = configpath\<rparr>)] \<and>
      c_runner conf = i_runner (installers s ! template) \<and>
      (\<forall>k. map_of (sections s ! i_game (installers s ! template)) k = Some ''rom'' \<longrightarrow>
           map_of (c_game conf) k = Some filepath) \<and>
      (\<forall>k. (k, ''rom'') \<notin> set (sections s ! i_game (installers s ! template)) \<longrightarrow>
           map_of (c_game conf) k = map_of (sections s ! i_game (installers s ! template)) k)"
proof (cases rule: add_game_cases[of rs e filepath s])
  case no_name
  with assms show ?thesis by simp
next
  case no_installer
  from assms no_installer(3) show ?thesis by simp
next
  case (write_failed p template installer s3 err)
  from assms write_failed(6) show ?thesis by simp
next
  case (insert_failed p template installer s3 configpath row err)
  from assms insert_failed(8) show ?thesis by simp
next
  case (added p template installer s3 configpath row game_id')
  let ?s1 = "add_event (LogInfo (''Installing '' @ clean_rom_name e (the (rs_name rs)))) s"
  let ?conf = "read_installer s3 installer"
  let ?tg = "sections s ! i_game (installers s ! template)"
  note c = copy_installer_props[OF added(4)]
  note rc = read_copy[OF added(4)]
  have run: "c_runner ?conf = i_runner (installers s ! template)" using rc(1) by simp
  have gm: "map_of (c_game ?conf) k =
      (if (k, ''rom'') \<in> set ?tg then Some filepath else map_of ?tg k)" for k
    using rc(2) c(5)[of k] by simp
  have g1: "map_of ?tg k = Some ''rom'' \<Longrightarrow> map_of (c_game ?conf) k = Some filepath" for k
    using gm[of k] by (auto dest: map_of_SomeD)
  have g2: "(k, ''rom'') \<notin> set ?tg \<Longrightarrow> map_of (c_game ?conf) k = map_of ?tg k" for k
    using gm[of k] by simp
  from assms(1) added(8) have id: "game_id' = game_id" by simp
  from assms(1) added(8) have s': "s' = add_event (DownloadMedia (slugify e (clean_rom_name e (the (rs_name rs)))))
        ((add_event (AddGame row)
           (add_event (WriteGameConfig (slugify e (clean_rom_name e (the (rs_name rs)))) ?conf) s3))
         \<lparr>games := games s @ [(game_id', row)]\<rparr>)"
    by (simp only: prod.inject)
  have ev: "events s3 = events s @ [LogInfo (''Installing '' @ clean_rom_name e (the (rs_name rs)))]"
    using c(7) by simp
  have row: "row = \<lparr>g_name = clean_rom_name e n,
           g_runner = i_runner (installers s ! template),
           g_slug = slugify e (clean_rom_name e n),
           g_directory = [], g_installed = 1,
           g_installer_slug =
             slugify e (clean_rom_name e n) @ ''-'' @ i_runner (installers s ! template),
           g_configpath = configpath\<rparr>"
    using added(6) run assms(2) by simp
  have w: "write_game_config e (slugify e (clean_rom_name e n)) ?conf = Inr configpath"
    using added(5) assms(2) by simp
  have tk: "take 2 (drop (Suc (length (events s))) (events s')) =
        [WriteGameConfig (slugify e (clean_rom_name e n)) ?conf, AddGame row]"
    using s' ev assms(2) by simp
  have gs: "games s' = games s @ [(game_id, row)]" using s' id by simp
  show ?thesis
    using added(2,3) w tk gs run g1 g2 unfolding row by blast
qed

theorem added_game_row_witness:
  "rs_name (snes_set ''Game A'') = Some ''Game A'' \<and>
   fst (add_game env0 (snes_set ''Game A'') ''/roms/a.sfc'' (state0\<lparr>platform := Some ''snes''\<rparr>)) = Inr 1 \<and>
   games (snd (add_game env0 (snes_set ''Game A'') ''/roms/a.sfc'' (state0\<lparr>platform := Some ''snes''\<rparr>))) =
     [(1, \<lparr>g_name = ''Game A'', g_runner = ''libretro'', g_slug = ''game a'',
            g_directory = [], g_installed = 1, g_installer_slug = ''game a-libretro'',
            g_configpath = ''game a.yml''\<rparr>)]"
proof -
  let ?s = "state0\<lparr>platform := Some ''snes''\<rparr>"
  have h2: "rs_name (snes_set ''Game A'') = Some ''Game A''" by (simp add: snes_set_def)
  have ev: "fst (add_game env0 (snes_set ''Game A'') ''/roms/a.sfc'' ?s) = Inr 1"
    by code_simp
  then have h1: "add_game env0 (snes_set ''Game A'') ''/roms/a.sfc'' ?s =
      (Inr 1, snd (add_game env0 (snes_set ''Game A'') ''/roms/a.sfc'' ?s))"
    by (simp add: prod_eq_iff)
  from added_game_row[OF h1 h2] obtain p template conf configpath where
    t: "DEFAULT_INSTALLERS env0 p = Some template"
    and w: "write_game_config env0 (slugify env0 (clean_rom_name env0 ''Game A'')) conf = Inr configpath"
    and g: "games (snd (add_game env0 (snes_set ''Game A'') ''/roms/a.sfc'' ?s)) = games ?s @
        [(1,
          \<lparr>g_name = clean_rom_name env0 ''Game A'',
           g_runner = i_runner (installers ?s ! template),
           g_slug = slugify env0 (clean_rom_name env0 ''Game A''),
           g_directory = [], g_installed = 1,
           g_installer_slug =
             slugify env0 (clean_rom_name env0 ''Game A'') @ ''-'' @ i_runner (installers ?s ! template),
           g_configpath = configpath\<rparr>)]"
    by blast
  have sl: "lower ''Game A'' = ''game a''" by code_simp
  from t have "template = 0" by (simp add: env0_def split: if_splits)
  moreover from w have "configpath = ''game a.yml''"
    by (simp add: env0_def sl)
  ultimately show ?thesis using g h2 ev
    by (simp add: env0_def state0_def sl)
qed

subsection \<open>The template store\<close>

lemma prefix_nth: "prefix xs ys \<Longrightarrow> i < length xs \<Longrightarrow> ys ! i = xs ! i"
  by (auto simp: prefix_def nth_append)

lemma read_installer_prefix:
  assumes "prefix (installers s) (installers s')" and "prefix (sections s) (sections s')"
    and "template < length (installers s)"
    and "i_game (installers s ! template) < length (sections s)"
    and "\<forall>(k, a)\<in>set (i_sections (installers s ! template)). a < length (sections s)"
  shows "read_installer s' template = read_installer s template"
proof -
  have i: "installers s' ! template = installers s ! template"
    using assms(1,3) by (rule prefix_nth)
  have g: "sections s' ! i_game (installers s ! template) = sections s ! i_game (installers s ! template)"
    using assms(2,4) by (rule prefix_nth)
  have m: "map (\<lambda>(key, r). (key, sections s' ! r)) (i_sections (installers s ! template)) =
      map (\<lambda>(key, r). (key, sections s ! r)) (i_sections (installers s ! template))"
    using assms(5) prefix_nth[OF assms(2)] by (intro map_cong) auto
  show ?thesis using i g m by (simp add: read_installer_def Let_def)
qed

lemma search_result_finished_frame:
  "prefix (installers s) (installers (search_result_finished e results err s)) \<and>
   prefix (sections s) (sections (search_result_finished e results err s))"
proof (cases err)
  case (Some x)
  then show ?thesis by (simp add: search_result_finished_def)
next
  case None
  show ?thesis
  proof (cases "if auto_launch_button s then installed_in_results results else None")
    case n: None
    with None import_results_frame[of s e "auto_launch_button s" results] show ?thesis
      by (simp add: search_result_finished_def)
  next
    case (Some g)
    with None show ?thesis by (simp add: search_result_finished_def)
  qed
qed

lemma add_game_copies:
  assumes "add_game e rs filepath s = (Inr game_id, s')"
  shows "length (installers s') = Suc (length (installers s))"
    and "length (sections s) < length (sections s')"
proof -
  have "length (installers s') = Suc (length (installers s)) \<and>
    length (sections s) < length (sections s')"
  proof (cases rule: add_game_cases[of rs e filepath s])
    case (added p template installer s3 configpath row game_id')
    note c = copy_installer_props[OF added(4)]
    from c(2) have "length (installers s3) = Suc (length (installers s))" by auto
    with c(4) assms added(8) show ?thesis by auto
  next
    case no_installer
    from assms no_installer(3) show ?thesis by simp
  next
    case (write_failed p template installer s3 err)
    from assms write_failed(6) show ?thesis by simp
  next
    case (insert_failed p template installer s3 configpath row err)
    from assms insert_failed(8) show ?thesis by simp
  qed (use assms in simp)
  then show "length (installers s') = Suc (length (installers s))"
    and "length (sections s) < length (sections s')" by simp_all
qed

text \<open>
  Claim C8. \<open>add_game\<close> only extends the heap: the installer dictionaries and the sections
  that were there stay as they were, and an import that succeeds has allocated a new
  installer and at least one new section, the copy it wrote the file's path into. The
  same holds for the whole callback, however many files it imports. So a template whose
  references are in the heap reads the same before and after.
\<close>

theorem template_not_mutated:
  "prefix (installers s) (installers (snd (add_game e rs filepath s))) \<and>
   prefix (sections s) (sections (snd (add_game e rs filepath s))) \<and>
   (\<forall>game_id. fst (add_game e rs filepath s) = Inr game_id \<longrightarrow>
      length (installers (snd (add_game e rs filepath s))) = Suc (length (installers s)) \<and>
      length (sections s) < length (sections (snd (add_game e rs filepath s)))) \<and>
   prefix (installers s) (installers (search_result_finished e' results err s)) \<and>
   prefix (sections s) (sections (search_result_finished e' results err s)) \<and>
   (template < length (installers s) \<longrightarrow>
    i_game (installers s ! template) < length (sections s) \<longrightarrow>
    (\<forall>(k, a)\<in>set (i_sections (installers s ! template)). a < length (sections s)) \<longrightarrow>
      read_installer (snd (add_game e rs filepath s)) template = read_installer s template \<and>
      read_installer (search_result_finished e' results err s) template = read_installer s template)"
proof -
  note a = add_game_fields(1,2)[OF prod.collapse[symmetric, of "add_game e rs filepath s"]]
  note f = search_result_finished_frame[of s e' results err]
  have c: "length (installers (snd (add_game e rs filepath s))) = Suc (length (installers s)) \<and>
      length (sections s) < length (sections (snd (add_game e rs filepath s)))"
    if "fst (add_game e rs filepath s) = Inr game_id" for game_id
    using add_game_copies[of e rs filepath s game_id "snd (add_game e rs filepath s)"] that
    by (simp add: prod_eq_iff)
  from a f c read_installer_prefix[OF a] read_installer_prefix[of s "search_result_finished e' results err s"]
  show ?thesis by blast
qed

theorem template_not_mutated_witness:
  "(0::nat) < length (installers (state0\<lparr>platform := Some ''snes''\<rparr>)) \<and>
   fst (add_game env0 (snes_set ''Game A'') ''/roms/a.sfc'' (state0\<lparr>platform := Some ''snes''\<rparr>)) = Inr 1 \<and>
   length (installers (snd (add_game env0 (snes_set ''Game A'') ''/roms/a.sfc''
      (state0\<lparr>platform := Some ''snes''\<rparr>)))) = 2 \<and>
   read_installer (snd (add_game env0 (snes_set ''Game A'') ''/roms/a.sfc''
      (state0\<lparr>platform := Some ''snes''\<rparr>))) 0 =
     \<lparr>c_runner = ''libretro'', c_game = [(''core'', ''snes9x''), (''main_file'', ''rom'')],
      c_sections = []\<rparr>"
proof -
  let ?s = "state0\<lparr>platform := Some ''snes''\<rparr>"
  have ev: "fst (add_game env0 (snes_set ''Game A'') ''/roms/a.sfc'' ?s) = Inr 1"
    by code_simp
  have wf: "0 < length (installers ?s)" "i_game (installers ?s ! 0) < length (sections ?s)"
    "\<forall>(k, a)\<in>set (i_sections (installers ?s ! 0)). a < length (sections ?s)"
    by (simp_all add: state0_def)
  have r: "read_installer ?s 0 =
     \<lparr>c_runner = ''libretro'', c_game = [(''core'', ''snes9x''), (''main_file'', ''rom'')],
      c_sections = []\<rparr>"
    by (simp add: read_installer_def state0_def)
  from template_not_mutated[of ?s env0 "snes_set ''Game A''" "''/roms/a.sfc''" env0 "[]" None 0]
    ev wf r
  show ?thesis by (simp add: state0_def)
qed

subsection \<open>The media download\<close>



subsection \<open>The outcome of a file\<close>

lemma import_rom_errors_mono:
  "length (filter (error_event p) (events s)) \<le>
   length (filter (error_event p) (events (snd (import_rom e rs f l s))))"
proof (cases "fst (import_rom e rs f l s)")
  case True
  then have "import_rom e rs f l s = (True, snd (import_rom e rs f l s))"
    by (simp add: prod_eq_iff)
  from import_rom_imported(2)[OF this, of p] show ?thesis by simp
next
  case False
  then have r: "import_rom e rs f l s = (False, snd (import_rom e rs f l s))"
    by (simp add: prod_eq_iff)
  show ?thesis
  proof (cases "p = f")
    case ne: False
    from import_rom_failed(3)[OF r ne] show ?thesis by simp
  next
    case True
    show ?thesis
    proof (cases "rs_error rs \<noteq> None \<or> rs_roms rs \<noteq> []")
      case True
      from import_rom_failed(4)[OF r True] \<open>p = f\<close> show ?thesis by auto
    next
      case False
      with import_rom_failed(5)[OF r] show ?thesis by simp
    qed
  qed
qed

lemma import_result_errors_mono:
  "length (filter (error_event p) (events s)) \<le>
   length (filter (error_event p) (events (snd (import_result e f l res s))))"
proof (induction res arbitrary: s)
  case Nil
  show ?case by simp
next
  case (Cons rs res)
  from import_rom_errors_mono[of p s e rs f l] Cons.IH[of "snd (import_rom e rs f l s)"]
  show ?case by (auto simp del: import_result.simps simp add: import_result_step)
qed

lemma import_result_exhaustive:
  assumes "res \<noteq> []" and "\<forall>rs\<in>set res. rs_error rs \<noteq> None \<or> rs_roms rs \<noteq> []"
  shows "created_record s (snd (import_result e f False res s)) \<or>
    recorded_failure f s (snd (import_result e f False res s))"
proof -
  from assms(1) obtain rs rest where res: "res = rs # rest" by (cases res) auto
  with assms(2) have wf: "rs_error rs \<noteq> None \<or> rs_roms rs \<noteq> []" by simp
  let ?s1 = "snd (import_rom e rs f False s)"
  show ?thesis
  proof (cases "fst (import_rom e rs f False s)")
    case True
    then have r: "import_rom e rs f False s = (True, ?s1)" by (simp add: prod_eq_iff)
    from import_rom_imported(1)[OF r] True res show ?thesis
      by (auto simp del: import_result.simps simp add: import_result_step created_record_def)
  next
    case False
    then have r: "import_rom e rs f False s = (False, ?s1)" by (simp add: prod_eq_iff)
    from import_rom_failed(4)[OF r wf] have
      "length (filter (error_event f) (events s)) < length (filter (error_event f) (events ?s1))"
      by auto
    with import_result_errors_mono[of f ?s1 e f False rest] False res show ?thesis
      by (simp del: import_result.simps add: import_result_step recorded_failure_def)
  qed
qed

lemma import_result_exclusive:
  "\<not> (created_record s (snd (import_result e f False [rs] s)) \<and>
      recorded_failure f s (snd (import_result e f False [rs] s)))"
proof (cases "fst (import_rom e rs f False s)")
  case True
  then have r: "import_rom e rs f False s = (True, snd (import_rom e rs f False s))"
    by (simp add: prod_eq_iff)
  from import_rom_imported(2)[OF r, of f] True show ?thesis
    by (simp add: split_beta recorded_failure_def)
next
  case False
  then have r: "import_rom e rs f False s = (False, snd (import_rom e rs f False s))"
    by (simp add: prod_eq_iff)
  from import_rom_failed(1)[OF r] False show ?thesis
    by (simp add: split_beta created_record_def)
qed

lemma import_result_no_return:
  "\<not> fst (import_result e f False res s)"
  using import_result_outcome[OF prod.collapse[symmetric, of "import_result e f False res s"]]
  by (auto split: if_splits)

lemma import_results_no_return:
  "\<not> fst (import_results e False results s)"
  using import_results_outcome[OF prod.collapse[symmetric, of "import_results e False results s"]]
  by (auto split: if_splits)

lemma search_file_uncached_result:
  assumes "f \<notin> snd ` set c"
    and "\<forall>m r. search_tosec_by_md5 e m = Inr r \<longrightarrow>
           (\<forall>rs\<in>set r. rs_error rs \<noteq> None \<or> rs_roms rs \<noteq> [])"
  shows "fst (search_file e c f s) \<noteq> [] \<and>
    (\<forall>rs\<in>set (fst (search_file e c f s)). rs_error rs \<noteq> None \<or> rs_roms rs \<noteq> [])"
  using assms by (cases rule: search_file_cases[of f c e s]) (auto simp: error_set_def)

text \<open>
  Claim C5, as the code has it. Let the check button be off, and let every rom set of the
  catalog list at least one rom. A file outside the path cache then ends with a new
  database row or with a failure shown on its label, and with exactly one of the two when
  its result is a single rom set or error. With the button off the callback does not
  return early: it handles the file in its turn, and the files after it.
\<close>

theorem import_outcome_without_launch:
  assumes "f \<notin> snd ` set c"
    and "\<forall>m r. search_tosec_by_md5 e m = Inr r \<longrightarrow>
           (\<forall>rs\<in>set r. rs_error rs \<noteq> None \<or> rs_roms rs \<noteq> [])"
    and "res = fst (search_file e c f s0)"
  shows "(created_record s1 (snd (import_result e f False res s1)) \<or>
      recorded_failure f s1 (snd (import_result e f False res s1))) \<and>
    (length res = 1 \<longrightarrow>
      \<not> (created_record s1 (snd (import_result e f False res s1)) \<and>
         recorded_failure f s1 (snd (import_result e f False res s1)))) \<and>
    import_results e False (pre @ (f, res) # post) s =
      import_results e False post
        (snd (import_result e f False res (snd (import_results e False pre s))))"
proof -
  from search_file_uncached_result[OF assms(1,2), of s0] assms(3)
  have wf: "res \<noteq> []" "\<forall>rs\<in>set res. rs_error rs \<noteq> None \<or> rs_roms rs \<noteq> []" by simp_all
  have a: "created_record s1 (snd (import_result e f False res s1)) \<or>
      recorded_failure f s1 (snd (import_result e f False res s1))"
    using wf by (rule import_result_exhaustive)
  have b: "\<not> (created_record s1 (snd (import_result e f False res s1)) \<and>
         recorded_failure f s1 (snd (import_result e f False res s1)))" if "length res = 1"
  proof -
    from that obtain rs where "res = [rs]" by (cases res) auto
    then show ?thesis using import_result_exclusive[of s1 e f rs] by simp
  qed
  have c: "import_results e False (pre @ (f, res) # post) s =
      import_results e False post
        (snd (import_result e f False res (snd (import_results e False pre s))))"
    using import_results_no_return[of e pre s]
      import_result_no_return[of e f res "snd (import_results e False pre s)"]
    by (simp del: import_results.simps add: import_results_append import_results_step)
  from a b c show ?thesis by blast
qed

theorem import_outcome_without_launch_witness:
  "''/roms/odd.bin'' \<notin> snd ` set (get_path_cache env0) \<and>
   (created_record state0
      (snd (import_result (env0\<lparr>search_tosec_by_md5 := (\<lambda>m. Inr [odd_set])\<rparr>) ''/roms/odd.bin'' False
         (fst (search_file (env0\<lparr>search_tosec_by_md5 := (\<lambda>m. Inr [odd_set])\<rparr>)
            (get_path_cache env0) ''/roms/odd.bin'' state0)) state0)) \<or>
    recorded_failure ''/roms/odd.bin'' state0
      (snd (import_result (env0\<lparr>search_tosec_by_md5 := (\<lambda>m. Inr [odd_set])\<rparr>) ''/roms/odd.bin'' False
         (fst (search_file (env0\<lparr>search_tosec_by_md5 := (\<lambda>m. Inr [odd_set])\<rparr>)
            (get_path_cache env0) ''/roms/odd.bin'' state0)) state0)))"
proof -
  let ?e = "env0\<lparr>search_tosec_by_md5 := (\<lambda>m. Inr [odd_set])\<rparr>"
  have h1: "''/roms/odd.bin'' \<notin> snd ` set (get_path_cache env0)" by (simp add: env0_def)
  have h2: "\<forall>m r. search_tosec_by_md5 ?e m = Inr r \<longrightarrow>
      (\<forall>rs\<in>set r. rs_error rs \<noteq> None \<or> rs_roms rs \<noteq> [])"
    by (auto simp: odd_set_def)
  from import_outcome_without_launch[OF h1 h2 refl, of state0 state0] h1
  show ?thesis by blast
qed

text \<open>
  Against claim C5 as it was put. With the check button on and two files the catalog
  knows, the callback returns after the first import: the only row is that of the first
  file and no failure is shown for the second. With the button off, a rom set without
  roms leaves its file with neither a row nor a failure, and a file whose first rom set
  fails and whose second is imported has both.
\<close>

theorem import_outcome_counterexample:
  "map (g_name \<circ> snd)
     (games (search_result_finished env0
        (fst (search_checksums env0
           ((init [''/roms/a.sfc'', ''/roms/b.sfc''] state0)\<lparr>auto_launch_button := True\<rparr>)))
        None
        (snd (search_checksums env0
           ((init [''/roms/a.sfc'', ''/roms/b.sfc''] state0)\<lparr>auto_launch_button := True\<rparr>))))) =
     [''Game A''] \<and>
   filter (error_event ''/roms/b.sfc'')
     (events (search_result_finished env0
        (fst (search_checksums env0
           ((init [''/roms/a.sfc'', ''/roms/b.sfc''] state0)\<lparr>auto_launch_button := True\<rparr>)))
        None
        (snd (search_checksums env0
           ((init [''/roms/a.sfc'', ''/roms/b.sfc''] state0)\<lparr>auto_launch_button := True\<rparr>))))) = [] \<and>
   ''/roms/empty.bin'' \<notin> snd ` set (get_path_cache env0) \<and>
   \<not> created_record state0
       (snd (import_result env0 ''/roms/empty.bin'' False
          (fst (search_file env0 (get_path_cache env0) ''/roms/empty.bin'' state0)) state0)) \<and>
   \<not> recorded_failure ''/roms/empty.bin'' state0
       (snd (import_result env0 ''/roms/empty.bin'' False
          (fst (search_file env0 (get_path_cache env0) ''/roms/empty.bin'' state0)) state0)) \<and>
   ''/roms/two.bin'' \<notin> snd ` set (get_path_cache env0) \<and>
   created_record state0
       (snd (import_result env0 ''/roms/two.bin'' False
          (fst (search_file env0 (get_path_cache env0) ''/roms/two.bin'' state0)) state0)) \<and>
   recorded_failure ''/roms/two.bin'' state0
       (snd (import_result env0 ''/roms/two.bin'' False
          (fst (search_file env0 (get_path_cache env0) ''/roms/two.bin'' state0)) state0))"
  by code_simp

end
